theory Spec2Isabelle
  imports Main "HOL-Library.Word" "HOL-Library.AList"
begin

unbundle bit_operations_syntax

section \<open>Data model of the Istanbul consensus core\<close>

text \<open>
  The embedding follows \<^verbatim>\<open>consensus/istanbul/core/core.go\<close> (the third part of the
  concatenated source file). Go's \<^verbatim>\<open>*big.Int\<close> is \<open>int\<close>, \<^verbatim>\<open>uint64\<close> and
  \<^verbatim>\<open>time.Duration\<close> (an \<^verbatim>\<open>int64\<close> of nanoseconds) are \<open>64 word\<close>, a Go map is an
  association list read with \<open>map_of\<close> and written with \<open>AList.update\<close> and
  \<open>AList.delete\<close>, a pointer that may be nil is an \<open>option\<close>.
\<close>

type_synonym bytes = "8 word list"
type_synonym address = "160 word"
type_synonym hash = "256 word"

record view =
  Sequence :: int
  Round :: int

text \<open>
  A \<^verbatim>\<open>*View\<close> as a message carries it: either \<^verbatim>\<open>*big.Int\<close> may be nil. The views the
  core builds itself (\<open>view\<close>) always have both.
\<close>

record msgView =
  vSequence :: "int option"
  vRound :: "int option"

record subject =
  View :: msgView
  Digest :: hash

record proposal =
  Number :: int
  Hash :: hash

record request =
  Proposal :: proposal

datatype msgCode = MsgPreprepare | MsgPrepare | MsgCommit | MsgRoundChange

record message =
  Code :: msgCode
  Msg :: bytes
  Address :: address
  Signature :: bytes
  CommittedSeal :: bytes

record PreparedCertificate =
  pcProposal :: proposal
  PrepareOrCommitMessages :: "message list"

record RoundChange =
  rcView :: view
  rcPreparedCertificate :: PreparedCertificate

record RoundChangeCertificate =
  RoundChangeMessages :: "message list"

record Preprepare =
  ppView :: view
  ppProposal :: proposal
  ppRoundChangeCertificate :: RoundChangeCertificate

text \<open>
  The validator set is held by reference in Go: the core, the round state's message sets
  and the round change set share one object, and \<^verbatim>\<open>CalcProposer\<close> mutates it in place.
  The model keeps the single copy in the core state.
\<close>

record validatorSet =
  validators :: "(address \<times> bytes) list"
  proposer :: address

text \<open>A message set is keyed by the sender's address.\<close>

type_synonym messageSet = "(address \<times> message) list"

definition Size :: "messageSet \<Rightarrow> nat" where
  "Size ms = length ms"

definition Values :: "messageSet \<Rightarrow> message list" where
  "Values ms = map snd ms"

record roundChangeSet =
  msgsForRound :: "(nat \<times> messageSet) list"
  latestRoundForVal :: "(address \<times> nat) list"

record roundState =
  round :: int
  desiredRound :: int
  sequence :: int
  preprepare :: "Preprepare option"
  Prepares :: messageSet
  Commits :: messageSet
  pendingRequest :: "request option"
  preparedCertificate :: PreparedCertificate

datatype State =
  StateAcceptRequest | StatePreprepared | StatePrepared | StateCommitted
  | StateWaitingForNewRound

datatype event = timeoutEvent view

text \<open>
  A \<^verbatim>\<open>time.Timer\<close> made by \<^verbatim>\<open>time.AfterFunc\<close>: its duration, the event its
  callback sends (the only callback of the core is
  \<^verbatim>\<open>func() { c.sendEvent(timeoutEvent{view}) }\<close>) and whether \<^verbatim>\<open>Stop\<close> was called.
\<close>

record timer =
  duration :: "64 word"
  sends :: event
  stopped :: bool

record config =
  RequestTimeout :: "64 word"
  BlockPeriod :: "64 word"

datatype error =
  errOldMessage | errFutureMessage | errInconsistentSubject | errInvalidMessage
  | errFailedDecodePrepare | errFailedDecodeCommit
  | errInvalidPreparedCertificateMsgCode | errInvalidPreparedCertificateDuplicate
  | errInvalidPreparedCertificateMsgView | errInvalidPreparedCertificateDigestMismatch
  | errInvalidPreparedCertificateNumMsgs | errOther string

datatype panic = NilPointerDereference | Panic string

datatype logLevel = LvlTrace | LvlDebug | LvlWarn | LvlError

text \<open>
  What a function of the core does to its collaborators, in the order of the calls: log
  lines, metrics, and the calls of functions of the package whose bodies are outside
  \<^verbatim>\<open>core.go\<close>.
\<close>

datatype action =
  Log logLevel string
  | SequenceMeterMark int
  | ConsensusTimerUpdateSince int
  | DeleteMessageFromDisk int int
  | ProcessPendingRequests
  | ProcessBacklog
  | SendPreprepare request RoundChangeCertificate
  | SendRoundChange int
  | SendNextRoundChange
  | BackendCommit proposal int bytes
  | SendEvent event
  | SendCommit subject

text \<open>
  The fields of \<^verbatim>\<open>core\<close> that the functions of \<^verbatim>\<open>core.go\<close> read or write
  themselves. The backlogs and the pending requests are only touched by
  \<^verbatim>\<open>processBacklog\<close> and \<^verbatim>\<open>processPendingRequests\<close>, which are actions here.
  \<open>consensusTimestamp = None\<close> is the zero \<^verbatim>\<open>time.Time\<close>.
\<close>

record core =
  config :: config
  address :: address
  state :: State
  futurePreprepareTimer :: "timer option"
  valSet :: "validatorSet option"
  current :: "roundState option"
  roundChangeSet :: "roundChangeSet option"
  roundChangeTimer :: "timer option"
  consensusTimestamp :: "int option"

text \<open>
  The Backend and the functions of the repository that \<^verbatim>\<open>core.go\<close> calls and that
  are not part of it, taken as parameters: the backend's answers, the validator set's
  methods, the round change set's \<^verbatim>\<open>getCertificate\<close>, the message codec, the
  accessors of a prepared certificate, the message set's lookups, the BLS aggregation
  and the signature check. \<open>backend_Commit\<close> gives the error \<^verbatim>\<open>Backend.Commit\<close>
  returns, if any; \<open>ValidSignature\<close> says whether a message is signed by its sender, a
  validator.
\<close>

record env =
  backend_Address :: address
  backend_LastProposal :: "proposal \<times> address"
  backend_Validators :: "proposal \<Rightarrow> validatorSet"
  backend_Commit :: "proposal \<Rightarrow> int \<Rightarrow> bytes \<Rightarrow> error option"
  CalcProposer :: "validatorSet \<Rightarrow> address \<Rightarrow> 64 word \<Rightarrow> validatorSet"
  IsProposer :: "validatorSet \<Rightarrow> address \<Rightarrow> bool"
  MinQuorumSize :: "validatorSet \<Rightarrow> int"
  getCertificate :: "roundChangeSet \<Rightarrow> int \<Rightarrow> int \<Rightarrow> error + RoundChangeCertificate"
  DecodeRoundChange :: "message \<Rightarrow> RoundChange option"
  DecodeSubject :: "message \<Rightarrow> subject option"
  ValidSignature :: "message \<Rightarrow> bool"
  HasPreparedCertificate :: "RoundChange \<Rightarrow> bool"
  PreparedCertificateView :: "PreparedCertificate \<Rightarrow> view option"
  GetAddressIndex :: "messageSet \<Rightarrow> address \<Rightarrow> error + nat"
  GetAddressPublicKey :: "messageSet \<Rightarrow> address \<Rightarrow> error + bytes"
  AggregateSignatures :: "bytes list \<Rightarrow> error + bytes"
  IstanbulExtraCommittedSeal :: nat
  EmptyPreparedCertificate :: PreparedCertificate

section \<open>Integer conversions of Go\<close>

text \<open>
  \<^verbatim>\<open>(*big.Int).Int64\<close> and \<^verbatim>\<open>(*big.Int).Uint64\<close> return the low 64 bits of the
  magnitude, the first with the sign applied.
\<close>

definition Int64 :: "int \<Rightarrow> 64 word" where
  "Int64 x = word_of_int x"

definition Uint64 :: "int \<Rightarrow> 64 word" where
  "Uint64 x = word_of_int \<bar>x\<bar>"

definition Millisecond :: "64 word" where
  "Millisecond = 1000000"

definition Second :: "64 word" where
  "Second = 1000000000"

section \<open>The functions of core.go\<close>

definition isProposer :: "env \<Rightarrow> core \<Rightarrow> bool" where
  "isProposer e c =
     (case valSet c of None \<Rightarrow> False | Some v \<Rightarrow> IsProposer e v (backend_Address e))"

definition currentView :: "core \<Rightarrow> panic + view" where
  "currentView c =
     (case current c of
        None \<Rightarrow> Inl NilPointerDereference
      | Some cur \<Rightarrow> Inr \<lparr>Sequence = sequence cur, Round = round cur\<rparr>)"

definition setState :: "core \<Rightarrow> State \<Rightarrow> core \<times> action list" where
  "setState c s =
     (c\<lparr>state := s\<rparr>,
      (if s = StateAcceptRequest then [ProcessPendingRequests] else []) @ [ProcessBacklog])"

definition Stop :: "timer option \<Rightarrow> timer option" where
  "Stop t = map_option (\<lambda>x. x\<lparr>stopped := True\<rparr>) t"

definition stopFuturePreprepareTimer :: "core \<Rightarrow> core" where
  "stopFuturePreprepareTimer c = c\<lparr>futurePreprepareTimer := Stop (futurePreprepareTimer c)\<rparr>"

definition stopTimer :: "core \<Rightarrow> core" where
  "stopTimer c =
     (let c1 = stopFuturePreprepareTimer c
      in c1\<lparr>roundChangeTimer := Stop (roundChangeTimer c1)\<rparr>)"

text \<open>
  \<^verbatim>\<open>time.Duration(math.Pow(2, math.Min(float64(round), 5.)))\<close> for a \<^verbatim>\<open>uint64\<close>
  round: the conversion to \<^verbatim>\<open>float64\<close> is exact below \<open>2^53\<close> and monotone, so the
  minimum is the round itself for rounds 1 to 4 and 5 from round 5 on, and the powers
  \<open>2, 4, 8, 16, 32\<close> are exact.
\<close>

definition backoff :: "64 word \<Rightarrow> 64 word" where
  "backoff r = 2 ^ min (unat r) 5"

definition newRoundChangeTimerForView :: "core \<Rightarrow> view \<Rightarrow> core" where
  "newRoundChangeTimerForView c v =
     (let c1 = stopTimer c;
          timeout = RequestTimeout (config c1) * Millisecond;
          r = Uint64 (Round v);
          timeout' = (if r = 0 then timeout + BlockPeriod (config c1) * Second
                      else timeout + backoff r * Second)
      in c1\<lparr>roundChangeTimer :=
              Some \<lparr>duration = timeout', sends = timeoutEvent v, stopped = False\<rparr>\<rparr>)"

definition newRoundChangeTimer :: "core \<Rightarrow> panic + core" where
  "newRoundChangeTimer c =
     (case currentView c of
        Inl p \<Rightarrow> Inl p
      | Inr v \<Rightarrow> Inr (newRoundChangeTimerForView c v))"

text \<open>
  What happens when a timer expires: the Go runtime runs its callback, which calls
  \<^verbatim>\<open>c.sendEvent\<close> and nothing else.
\<close>

definition expire :: "core \<Rightarrow> timer \<Rightarrow> core \<times> action list" where
  "expire c t = (c, [SendEvent (sends t)])"

text \<open>
  Modelled from the spec: \<^verbatim>\<open>newRoundState\<close> and \<^verbatim>\<open>newRoundChangeSet\<close> (their
  bodies are in \<^verbatim>\<open>roundstate.go\<close> and \<^verbatim>\<open>roundchange.go\<close>, outside the sources).
  A fresh round state is at its view, tries to reach no other round, and has empty
  message stores; a fresh round change set holds no message. The validator set argument
  is the shared reference and is not copied; the \<^verbatim>\<open>hasBadProposal\<close> callback of the
  backend is not stored.
\<close>

definition newRoundState ::
  "view \<Rightarrow> validatorSet \<Rightarrow> Preprepare option \<Rightarrow> request option \<Rightarrow> PreparedCertificate
   \<Rightarrow> roundState" where
  "newRoundState v validatorSet pp pr pc =
     \<lparr>round = Round v, desiredRound = Round v, sequence = Sequence v, preprepare = pp,
      Prepares = [], Commits = [], pendingRequest = pr, preparedCertificate = pc\<rparr>"

definition newRoundChangeSet :: "validatorSet \<Rightarrow> roundChangeSet" where
  "newRoundChangeSet validatorSet = \<lparr>msgsForRound = [], latestRoundForVal = []\<rparr>"

text \<open>
  Modelled from the spec: \<^verbatim>\<open>roundState.Proposal\<close> (in \<^verbatim>\<open>roundstate.go\<close>), the
  proposal of the current PRE-PREPARE, if any.
\<close>

definition Proposal_of :: "roundState \<Rightarrow> proposal option" where
  "Proposal_of s = map_option ppProposal (preprepare s)"

text \<open>
  The loop of \<^verbatim>\<open>getPreprepareWithRoundChangeCertificate\<close> over the messages of the
  certificate, with its two variables \<^verbatim>\<open>maxRound\<close> and \<^verbatim>\<open>request\<close>.
\<close>

fun searchRequest :: "env \<Rightarrow> message list \<Rightarrow> int \<Rightarrow> request option \<Rightarrow> request option" where
  "searchRequest e [] maxRound request = request"
| "searchRequest e (message # rest) maxRound request =
     (case DecodeRoundChange e message of
        None \<Rightarrow> searchRequest e rest maxRound request
      | Some roundChangeMsg \<Rightarrow>
          (case PreparedCertificateView e (rcPreparedCertificate roundChangeMsg) of
             None \<Rightarrow> searchRequest e rest maxRound request
           | Some preparedCertificateView \<Rightarrow>
               if HasPreparedCertificate e roundChangeMsg
                  \<and> Round preparedCertificateView > maxRound
               then searchRequest e rest (Round preparedCertificateView)
                      (Some \<lparr>Proposal = pcProposal (rcPreparedCertificate roundChangeMsg)\<rparr>)
               else searchRequest e rest maxRound request))"

definition getPreprepareWithRoundChangeCertificate ::
  "env \<Rightarrow> core \<Rightarrow> int \<Rightarrow> panic + (error + request option \<times> RoundChangeCertificate)" where
  "getPreprepareWithRoundChangeCertificate e c r =
     (case valSet c of
        None \<Rightarrow> Inl NilPointerDereference
      | Some vs \<Rightarrow>
          (case roundChangeSet c of
             None \<Rightarrow> Inl NilPointerDereference
           | Some rcs \<Rightarrow>
               (case getCertificate e rcs r (MinQuorumSize e vs) of
                  Inl err \<Rightarrow> Inr (Inl err)
                | Inr roundChangeCertificate \<Rightarrow>
                    (case current c of
                       None \<Rightarrow> Inl NilPointerDereference
                     | Some cur \<Rightarrow>
                         Inr (Inr (searchRequest e (RoundChangeMessages roundChangeCertificate)
                                     (- 1) (pendingRequest cur),
                                   roundChangeCertificate))))))"

definition updateRoundState :: "env \<Rightarrow> core \<Rightarrow> view \<Rightarrow> validatorSet \<Rightarrow> bool \<Rightarrow> core" where
  "updateRoundState e c v validatorSet roundChange =
     (case current c of
        Some cur \<Rightarrow>
          if roundChange
          then c\<lparr>current := Some (newRoundState v validatorSet None (pendingRequest cur)
                                    (preparedCertificate cur))\<rparr>
          else c\<lparr>current := Some (newRoundState v validatorSet None None
                                    (EmptyPreparedCertificate e))\<rparr>
      | None \<Rightarrow>
          c\<lparr>current := Some (newRoundState v validatorSet None None
                               (EmptyPreparedCertificate e))\<rparr>)"

text \<open>
  \<^verbatim>\<open>startNewRound\<close> from the comment "Update logger" to its end: the part every path
  that does not return early runs, with the new view, the request and the certificate the
  first part has built.
\<close>

definition enterRound ::
  "env \<Rightarrow> core \<Rightarrow> view \<Rightarrow> request option \<Rightarrow> RoundChangeCertificate \<Rightarrow> bool \<Rightarrow> address
   \<Rightarrow> panic + core \<times> action list" where
  "enterRound e c newView request roundChangeCertificate roundChange lastProposer =
     (case valSet c of
        None \<Rightarrow> Inl NilPointerDereference
      | Some vs \<Rightarrow>
          (let c1 = c\<lparr>roundChangeSet := Some (newRoundChangeSet vs)\<rparr>;
               c2 = updateRoundState e c1 newView vs roundChange;
               c3 = c2\<lparr>valSet := Some (CalcProposer e vs lastProposer (Uint64 (Round newView)))\<rparr>;
               (c4, a4) = setState c3 StateAcceptRequest;
               a5 = (case request of
                       None \<Rightarrow> []
                     | Some rq \<Rightarrow>
                         if roundChange \<and> isProposer e c4 \<and> current c4 \<noteq> None
                         then [SendPreprepare rq roundChangeCertificate] else [])
           in case newRoundChangeTimer c4 of
                Inl p \<Rightarrow> Inl p
              | Inr c5 \<Rightarrow> Inr (c5, a4 @ a5 @ [Log LvlDebug ''New round''])))"

text \<open>
  \<^verbatim>\<open>startNewRound\<close> from "Generate next view and pre-prepare" on, for the value of
  \<^verbatim>\<open>roundChange\<close> the first part has found; \<open>acts\<close> are the actions done so far.
\<close>

definition generateAndEnter ::
  "env \<Rightarrow> core \<Rightarrow> int \<Rightarrow> bool \<Rightarrow> proposal \<Rightarrow> address \<Rightarrow> action list
   \<Rightarrow> panic + core \<times> action list" where
  "generateAndEnter e c r roundChange lastProposal lastProposer acts =
     (if roundChange then
        (case current c of
           None \<Rightarrow> Inl NilPointerDereference
         | Some cur \<Rightarrow>
             (case getPreprepareWithRoundChangeCertificate e c r of
                Inl p \<Rightarrow> Inl p
              | Inr (Inl err) \<Rightarrow>
                  Inr (c, acts @ [Log LvlError ''Unable to produce round change certificate''])
              | Inr (Inr (request, roundChangeCertificate)) \<Rightarrow>
                  (case enterRound e c \<lparr>Sequence = sequence cur, Round = r\<rparr> request
                          roundChangeCertificate roundChange lastProposer of
                     Inl p \<Rightarrow> Inl p
                   | Inr (c', acts') \<Rightarrow> Inr (c', acts @ acts'))))
      else
        (let request = (case current c of None \<Rightarrow> None | Some cur \<Rightarrow> pendingRequest cur);
             disk = (case current c of
                       None \<Rightarrow> []
                     | Some cur \<Rightarrow> [DeleteMessageFromDisk (round cur) (sequence cur)]);
             c1 = c\<lparr>valSet := Some (backend_Validators e lastProposal)\<rparr>
         in case enterRound e c1 \<lparr>Sequence = Number lastProposal + 1, Round = 0\<rparr> request
                   \<lparr>RoundChangeMessages = []\<rparr> roundChange lastProposer of
              Inl p \<Rightarrow> Inl p
            | Inr (c', acts') \<Rightarrow> Inr (c', acts @ disk @ acts')))"

definition startNewRound :: "env \<Rightarrow> core \<Rightarrow> int \<Rightarrow> panic + core \<times> action list" where
  "startNewRound e c r =
     (let (lastProposal, lastProposer) = backend_LastProposal e
      in case current c of
           None \<Rightarrow>
             generateAndEnter e c r False lastProposal lastProposer
               [Log LvlTrace ''Start the initial round'']
         | Some cur \<Rightarrow>
             if Number lastProposal \<ge> sequence cur then
               generateAndEnter e (c\<lparr>consensusTimestamp := None\<rparr>) r False lastProposal
                 lastProposer
                 ([SequenceMeterMark (sint (Int64 (Number lastProposal - sequence cur + 1)))]
                  @ (case consensusTimestamp c of
                       None \<Rightarrow> []
                     | Some t \<Rightarrow> [ConsensusTimerUpdateSince t])
                  @ [Log LvlTrace ''Catch up to the latest proposal.''])
             else if Number lastProposal = sint (Int64 (sequence cur) - 1) then
               (if r = round cur then
                  Inr (c, [Log LvlTrace ''Already in the desired round.''])
                else if r < round cur then
                  Inr (c, [Log LvlWarn ''New round should not be smaller than current round''])
                else generateAndEnter e c r True lastProposal lastProposer [])
             else
               Inr (c, [Log LvlWarn ''New sequence should be larger than current sequence'']))"


text \<open>
  The loop of \<^verbatim>\<open>commit\<close> over \<^verbatim>\<open>c.current.Commits.Values()\<close>. Go iterates the
  values in an unspecified order; the model takes the order of the association list.
  \<^verbatim>\<open>copy\<close> into a slice of \<^verbatim>\<open>IstanbulExtraCommittedSeal\<close> zero bytes truncates or
  pads the seal.
\<close>

fun collectSeals ::
  "env \<Rightarrow> messageSet \<Rightarrow> message list \<Rightarrow> int \<Rightarrow> bytes list \<Rightarrow> bytes list
   \<Rightarrow> panic + int \<times> bytes list \<times> bytes list" where
  "collectSeals e cs [] bitmap publicKeys committedSeals =
     Inr (bitmap, publicKeys, committedSeals)"
| "collectSeals e cs (v # vs) bitmap publicKeys committedSeals =
     (let n = IstanbulExtraCommittedSeal e;
          seal = take n (CommittedSeal v) @ replicate (n - length (CommittedSeal v)) 0
      in case GetAddressIndex e cs (Address v) of
           Inl err \<Rightarrow> Inl (Panic ''commit: could not get address index'')
         | Inr j \<Rightarrow>
             (case GetAddressPublicKey e cs (Address v) of
                Inl err \<Rightarrow> Inl (Panic ''commit: could not get public key'')
              | Inr publicKey \<Rightarrow>
                  collectSeals e cs vs (set_bit j bitmap) (publicKeys @ [publicKey])
                    (committedSeals @ [seal])))"

definition commit :: "env \<Rightarrow> core \<Rightarrow> panic + core \<times> action list" where
  "commit e c =
     (let (c1, a1) = setState c StateCommitted
      in case current c1 of
           None \<Rightarrow> Inl NilPointerDereference
         | Some cur \<Rightarrow>
             (case Proposal_of cur of
                None \<Rightarrow> Inr (c1, a1)
              | Some proposal \<Rightarrow>
                  (case collectSeals e (Commits cur) (Values (Commits cur)) 0 [] [] of
                     Inl p \<Rightarrow> Inl p
                   | Inr (bitmap, publicKeys, committedSeals) \<Rightarrow>
                       (case AggregateSignatures e committedSeals of
                          Inl err \<Rightarrow> Inl (Panic ''commit: could not aggregate signatures'')
                        | Inr asig \<Rightarrow>
                            (case backend_Commit e proposal bitmap asig of
                               Some err \<Rightarrow>
                                 Inr (c1, a1 @ [BackendCommit proposal bitmap asig,
                                                SendNextRoundChange])
                             | None \<Rightarrow>
                                 Inr (c1, a1 @ [BackendCommit proposal bitmap asig]))))))"

section \<open>The specification's wording of the code's behaviour\<close>

text \<open>
  The round-change timeout as the specification gives it: \<open>b(0)\<close> is the block period,
  \<open>b(k) = 2^min(k,5)\<close> for \<open>k > 0\<close>, both in seconds; the duration is the request timeout
  (milliseconds) plus \<open>b(round)\<close>, here in nanoseconds.
\<close>

definition roundBackoffSeconds :: "config \<Rightarrow> nat \<Rightarrow> nat" where
  "roundBackoffSeconds cfg k = (if k = 0 then unat (BlockPeriod cfg) else 2 ^ min k 5)"

definition roundTimeoutNanos :: "config \<Rightarrow> nat \<Rightarrow> nat" where
  "roundTimeoutNanos cfg k =
     unat (RequestTimeout cfg) * 1000000 + roundBackoffSeconds cfg k * 1000000000"

text \<open>
  The prepared certificate embedded in a ROUND-CHANGE message, as its view and its
  proposal: the message decodes, it has a prepared certificate, and the certificate has a
  view.
\<close>

definition embeddedCertificate :: "env \<Rightarrow> message \<Rightarrow> (view \<times> proposal) option" where
  "embeddedCertificate e m =
     (case DecodeRoundChange e m of
        None \<Rightarrow> None
      | Some rc \<Rightarrow>
          (case PreparedCertificateView e (rcPreparedCertificate rc) of
             None \<Rightarrow> None
           | Some v \<Rightarrow>
               if HasPreparedCertificate e rc
               then Some (v, pcProposal (rcPreparedCertificate rc)) else None))"

section \<open>A four-validator system for the concrete instances\<close>

definition exampleConfig :: config where
  "exampleConfig = \<lparr>RequestTimeout = 3000, BlockPeriod = 1\<rparr>"

definition exampleValSet :: validatorSet where
  "exampleValSet = \<lparr>validators = [(1, []), (2, []), (3, []), (4, [])], proposer = 1\<rparr>"

definition exampleProposal :: proposal where
  "exampleProposal = \<lparr>Number = 1, Hash = 11\<rparr>"

definition preparedProposal :: proposal where
  "preparedProposal = \<lparr>Number = 1, Hash = 22\<rparr>"

definition emptyCertificate :: PreparedCertificate where
  "emptyCertificate = \<lparr>pcProposal = \<lparr>Number = 0, Hash = 0\<rparr>, PrepareOrCommitMessages = []\<rparr>"

text \<open>
  The example codec: a PREPARE or COMMIT payload is three bytes, the sequence, the round
  and the digest; a ROUND-CHANGE payload (of sequence 1) is one byte (the round, with the
  empty certificate) or two bytes (the round and the round of a prepared certificate for
  \<open>preparedProposal\<close>). A signature is valid when it is the sender's address as one byte.
\<close>

definition examplePrepare :: "address \<Rightarrow> 8 word \<Rightarrow> 8 word \<Rightarrow> 8 word \<Rightarrow> message" where
  "examplePrepare a sq r h =
     \<lparr>Code = MsgPrepare, Msg = [sq, r, h], Address = a, Signature = [ucast a],
      CommittedSeal = []\<rparr>"

definition exampleDecodeSubject :: "message \<Rightarrow> subject option" where
  "exampleDecodeSubject m =
     (case Msg m of
        [sq, r, h] \<Rightarrow>
          Some \<lparr>View = \<lparr>vSequence = Some (uint sq), vRound = Some (uint r)\<rparr>, Digest = ucast h\<rparr>
      | _ \<Rightarrow> None)"

definition exampleRoundChange :: "address \<Rightarrow> bytes \<Rightarrow> message" where
  "exampleRoundChange a b =
     \<lparr>Code = MsgRoundChange, Msg = b, Address = a, Signature = [], CommittedSeal = []\<rparr>"

definition exampleDecodeRoundChange :: "message \<Rightarrow> RoundChange option" where
  "exampleDecodeRoundChange m =
     (case Msg m of
        [r] \<Rightarrow> Some \<lparr>rcView = \<lparr>Sequence = 1, Round = uint r\<rparr>,
                      rcPreparedCertificate = emptyCertificate\<rparr>
      | [r, pr] \<Rightarrow>
          Some \<lparr>rcView = \<lparr>Sequence = 1, Round = uint r\<rparr>,
                rcPreparedCertificate =
                  \<lparr>pcProposal = preparedProposal,
                   PrepareOrCommitMessages =
                     [examplePrepare 1 1 pr 22, examplePrepare 2 1 pr 22,
                      examplePrepare 3 1 pr 22]\<rparr>\<rparr>
      | _ \<Rightarrow> None)"

definition examplePreparedCertificateView :: "PreparedCertificate \<Rightarrow> view option" where
  "examplePreparedCertificateView pc =
     (case PrepareOrCommitMessages pc of
        [] \<Rightarrow> None
      | m # ms \<Rightarrow>
          (case Msg m of
             [sq, r, h] \<Rightarrow> Some \<lparr>Sequence = uint sq, Round = uint r\<rparr>
           | _ \<Rightarrow> None))"

definition exampleGetCertificate ::
  "roundChangeSet \<Rightarrow> int \<Rightarrow> int \<Rightarrow> error + RoundChangeCertificate" where
  "exampleGetCertificate rcs r quorumSize =
     (case map_of (msgsForRound rcs) (nat r) of
        None \<Rightarrow> Inl (errOther ''no round change certificate'')
      | Some ms \<Rightarrow>
          if quorumSize \<le> int (Size ms) then Inr \<lparr>RoundChangeMessages = Values ms\<rparr>
          else Inl (errOther ''no round change certificate''))"

definition exampleEnv :: env where
  "exampleEnv =
     \<lparr>backend_Address = 2,
      backend_LastProposal = (\<lparr>Number = 0, Hash = 10\<rparr>, 1),
      backend_Validators = (\<lambda>p. exampleValSet),
      backend_Commit = (\<lambda>p bitmap asig. Some (errOther ''bad block'')),
      CalcProposer = (\<lambda>vs lastProposer r. vs\<lparr>proposer := lastProposer + ucast r\<rparr>),
      IsProposer = (\<lambda>vs a. proposer vs = a),
      MinQuorumSize = (\<lambda>vs. 3),
      getCertificate = exampleGetCertificate,
      DecodeRoundChange = exampleDecodeRoundChange,
      DecodeSubject = exampleDecodeSubject,
      ValidSignature = (\<lambda>m. Signature m = [ucast (Address m)]),
      HasPreparedCertificate = (\<lambda>rc. PrepareOrCommitMessages (rcPreparedCertificate rc) \<noteq> []),
      PreparedCertificateView = examplePreparedCertificateView,
      GetAddressIndex = (\<lambda>ms a. Inr (unat a - 1)),
      GetAddressPublicKey = (\<lambda>ms a. Inr [ucast a]),
      AggregateSignatures = (\<lambda>seals. Inr (concat seals)),
      IstanbulExtraCommittedSeal = 2,
      EmptyPreparedCertificate = emptyCertificate\<rparr>"

definition exampleRoundChangeSet :: roundChangeSet where
  "exampleRoundChangeSet =
     \<lparr>msgsForRound =
        [(1, [(1, exampleRoundChange 1 [1]), (3, exampleRoundChange 3 [1, 0]),
              (4, exampleRoundChange 4 [1])])],
      latestRoundForVal = [(1, 1), (3, 1), (4, 1)]\<rparr>"

definition exampleRoundState :: roundState where
  "exampleRoundState =
     \<lparr>round = 0, desiredRound = 0, sequence = 1, preprepare = None, Prepares = [],
      Commits = [], pendingRequest = Some \<lparr>Proposal = exampleProposal\<rparr>,
      preparedCertificate = emptyCertificate\<rparr>"

definition exampleCore :: core where
  "exampleCore =
     \<lparr>config = exampleConfig, address = 2, state = StateAcceptRequest,
      futurePreprepareTimer = None, valSet = Some exampleValSet,
      current = Some exampleRoundState, roundChangeSet = Some exampleRoundChangeSet,
      roundChangeTimer = None, consensusTimestamp = None\<rparr>"

text \<open>The same core after a PRE-PREPARE and three COMMITs for \<open>exampleProposal\<close>.\<close>

definition exampleCommit :: "address \<Rightarrow> message" where
  "exampleCommit a =
     \<lparr>Code = MsgCommit, Msg = [1, 0, 11], Address = a, Signature = [ucast a],
      CommittedSeal = [ucast a]\<rparr>"

definition committingCore :: core where
  "committingCore =
     exampleCore
       \<lparr>state := StatePrepared,
        current := Some (exampleRoundState
          \<lparr>preprepare := Some \<lparr>ppView = \<lparr>Sequence = 1, Round = 0\<rparr>,
                                ppProposal = exampleProposal,
                                ppRoundChangeCertificate = \<lparr>RoundChangeMessages = []\<rparr>\<rparr>,
           Commits := [(1, exampleCommit 1), (2, exampleCommit 2), (3, exampleCommit 3)]\<rparr>)\<rparr>"

text \<open>A backend whose chain is already at block 2 while the core works on sequence 1.\<close>

definition aheadEnv :: env where
  "aheadEnv = exampleEnv\<lparr>backend_LastProposal := (\<lparr>Number = 2, Hash = 12\<rparr>, 1)\<rparr>"

section \<open>The round change set\<close>

text \<open>
  Modelled from the spec: \<^verbatim>\<open>messageSet.Add\<close> and \<^verbatim>\<open>messageSet.Remove\<close> (in
  \<^verbatim>\<open>message_set.go\<close>, outside the sources). A message store is keyed by the sender's
  address, so that inserting a sender's message again does not change its size.
\<close>

definition msgSetAdd :: "messageSet \<Rightarrow> message \<Rightarrow> messageSet" where
  "msgSetAdd ms msg = AList.update (Address msg) msg ms"

definition msgSetRemove :: "messageSet \<Rightarrow> address \<Rightarrow> messageSet" where
  "msgSetRemove ms a = AList.delete a ms"

definition sendersOf :: "messageSet \<Rightarrow> address set" where
  "sendersOf ms = fst ` set ms"

text \<open>The messages stored for a round; a round without an entry has none.\<close>

definition messagesAt :: "roundChangeSet \<Rightarrow> nat \<Rightarrow> messageSet" where
  "messagesAt rcs r = (case map_of (msgsForRound rcs) r of None \<Rightarrow> [] | Some ms \<Rightarrow> ms)"

text \<open>
  Modelled from the spec: \<^verbatim>\<open>roundChangeSet.Add\<close> (in \<^verbatim>\<open>roundchange.go\<close>, outside
  the sources; \<^verbatim>\<open>TestRoundChangeSet\<close> calls it). The message is inserted into
  \<open>msgsForRound\<close> at its round; for each sender only the message of the highest round is
  kept, and \<open>latestRoundForVal\<close> of the sender is that round. So a message of a round
  below the sender's latest is not stored, and a message of a round above it replaces the
  sender's entry at the former latest round. The error result of the Go function is not
  described by the spec and not modelled.
\<close>

definition Add :: "roundChangeSet \<Rightarrow> nat \<Rightarrow> message \<Rightarrow> roundChangeSet" where
  "Add rcs r msg =
     (let src = Address msg;
          store = (\<lambda>m. \<lparr>msgsForRound =
                           AList.update r
                             (msgSetAdd (case map_of m r of None \<Rightarrow> [] | Some ms \<Rightarrow> ms) msg) m,
                         latestRoundForVal = AList.update src r (latestRoundForVal rcs)\<rparr>)
      in case map_of (latestRoundForVal rcs) src of
           None \<Rightarrow> store (msgsForRound rcs)
         | Some prevLatestRound \<Rightarrow>
             if r < prevLatestRound then rcs
             else if prevLatestRound < r then
               store (AList.update prevLatestRound
                        (msgSetRemove (messagesAt rcs prevLatestRound) src) (msgsForRound rcs))
             else store (msgsForRound rcs))"

text \<open>
  Each sender has its only message at its latest round: the state every round change set
  built by \<open>Add\<close> from a new one is in.
\<close>

definition oneMessagePerSender :: "roundChangeSet \<Rightarrow> bool" where
  "oneMessagePerSender rcs =
     (\<forall>r a. (a \<in> sendersOf (messagesAt rcs r)) = (map_of (latestRoundForVal rcs) a = Some r))"

text \<open>
  Modelled from the spec: \<^verbatim>\<open>roundChangeSet.MaxRound\<close> (in \<^verbatim>\<open>roundchange.go\<close>,
  outside the sources): the largest round \<open>R\<close> such that at least \<open>threshold\<close> distinct
  senders have their latest round at \<open>R\<close> or above, nil when there is none. The rounds it
  chooses from are the latest rounds of the senders, which TestRoundChangeSet requires for
  the threshold 0: with every validator at round 1, \<^verbatim>\<open>MaxRound(0)\<close> is 1.
\<close>

definition senders :: "roundChangeSet \<Rightarrow> address list" where
  "senders rcs = remdups (map fst (latestRoundForVal rcs))"

definition sendersAtLeast :: "roundChangeSet \<Rightarrow> nat \<Rightarrow> address list" where
  "sendersAtLeast rcs R =
     filter (\<lambda>a. case map_of (latestRoundForVal rcs) a of None \<Rightarrow> False | Some r \<Rightarrow> R \<le> r)
       (senders rcs)"

definition MaxRound :: "roundChangeSet \<Rightarrow> int \<Rightarrow> nat option" where
  "MaxRound rcs threshold =
     (let rounds = List.map_filter (map_of (latestRoundForVal rcs)) (senders rcs);
          reached = filter (\<lambda>R. threshold \<le> int (length (sendersAtLeast rcs R))) rounds
      in if reached = [] then None else Some (Max (set reached)))"

text \<open>
  The latest rounds of the senders that at least \<open>t\<close> distinct senders have reached: the set
  \<open>MaxRound\<close> takes the maximum of.
\<close>

definition reachedRounds :: "roundChangeSet \<Rightarrow> int \<Rightarrow> nat set" where
  "reachedRounds rcs t =
     {R \<in> ran (map_of (latestRoundForVal rcs)). t \<le> int (length (sendersAtLeast rcs R))}"

text \<open>The validators of TestRoundChangeSet and a ROUND-CHANGE message of each.\<close>

definition testRoundChange :: "address \<Rightarrow> message" where
  "testRoundChange a =
     \<lparr>Code = MsgRoundChange, Msg = [], Address = a, Signature = [], CommittedSeal = []\<rparr>"

definition allAtRoundOne :: roundChangeSet where
  "allAtRoundOne =
     Add (Add (Add (Add (newRoundChangeSet exampleValSet) 1 (testRoundChange 1)) 1
       (testRoundChange 2)) 1 (testRoundChange 3)) 1 (testRoundChange 4)"

definition atOwnRounds :: roundChangeSet where
  "atOwnRounds =
     Add (Add (Add (Add (newRoundChangeSet exampleValSet) 0 (testRoundChange 1)) 1
       (testRoundChange 2)) 2 (testRoundChange 3)) 3 (testRoundChange 4)"

section \<open>Prepared certificates and the PREPARE handler\<close>

text \<open>
  Modelled from the spec: \<^verbatim>\<open>roundState.Subject\<close> (in \<^verbatim>\<open>roundstate.go\<close>, outside the
  sources): the current view and the hash of the accepted proposal. Without a proposal
  there is no subject.
\<close>

definition Subject_of :: "roundState \<Rightarrow> subject option" where
  "Subject_of s =
     (case Proposal_of s of
        None \<Rightarrow> None
      | Some p \<Rightarrow>
          Some \<lparr>View = \<lparr>vSequence = Some (sequence s), vRound = Some (round s)\<rparr>,
                Digest = Hash p\<rparr>)"

text \<open>
  Modelled from the spec: \<^verbatim>\<open>core.verifyPrepare\<close> (in \<^verbatim>\<open>prepare.go\<close>, outside the
  sources; \<^verbatim>\<open>TestVerifyPrepare\<close> calls it), on the core's current round state: the
  view and the digest must be those of the current view and the accepted proposal's hash,
  else \<open>errInconsistentSubject\<close>.
\<close>

definition verifyPrepare :: "roundState \<Rightarrow> subject \<Rightarrow> error option" where
  "verifyPrepare cur prepare =
     (if Subject_of cur = Some prepare then None else Some errInconsistentSubject)"

text \<open>
  Modelled from the spec: the comparison of a message's view with the current view
  (section 4.2, \<open>handle\<close>): a past view is \<open>errOldMessage\<close>, a future view is
  \<open>errFutureMessage\<close>; views are ordered by sequence, then round. \<^verbatim>\<open>TestHandlePrepare\<close>
  requires both errors of \<^verbatim>\<open>handlePrepare\<close> itself. A view without a sequence or a
  round is an invalid message.
\<close>

definition checkMessage :: "roundState \<Rightarrow> msgView \<Rightarrow> error option" where
  "checkMessage cur v =
     (case (vSequence v, vRound v) of
        (Some s, Some r) \<Rightarrow>
          if s < sequence cur \<or> (s = sequence cur \<and> r < round cur) then Some errOldMessage
          else if sequence cur < s \<or> (s = sequence cur \<and> round cur < r)
          then Some errFutureMessage
          else None
      | _ \<Rightarrow> Some errInvalidMessage)"

text \<open>
  Modelled from the spec: \<^verbatim>\<open>core.handlePrepare\<close> (in \<^verbatim>\<open>prepare.go\<close>, outside the
  sources; \<^verbatim>\<open>TestHandlePrepare\<close> calls it). The message is decoded to a subject,
  compared with the current view and verified; then it is inserted into \<open>Prepares\<close>; on a
  quorum of PREPAREs the prepared certificate is frozen, the state becomes
  \<open>StatePrepared\<close> and a COMMIT for the current subject is broadcast. The transition is
  the one from \<open>StatePreprepared\<close> of section 4.1. Section 4.2 words its guard as "state at
  least Preprepared", which \<^verbatim>\<open>TestHandlePrepare\<close> excludes for a node that is already
  prepared: it hands four PREPAREs to a node in \<open>StatePreprepared\<close> whose quorum is three
  and requires that one message has been sent.
\<close>

definition handlePrepare ::
  "env \<Rightarrow> core \<Rightarrow> message \<Rightarrow> panic + (error + core \<times> action list)" where
  "handlePrepare e c msg =
     (case current c of
        None \<Rightarrow> Inl NilPointerDereference
      | Some cur \<Rightarrow>
          (case valSet c of
             None \<Rightarrow> Inl NilPointerDereference
           | Some vs \<Rightarrow>
               (case DecodeSubject e msg of
                  None \<Rightarrow> Inr (Inl errFailedDecodePrepare)
                | Some prepare \<Rightarrow>
                    (case checkMessage cur (View prepare) of
                       Some err \<Rightarrow> Inr (Inl err)
                     | None \<Rightarrow>
                         (case verifyPrepare cur prepare of
                            Some err \<Rightarrow> Inr (Inl err)
                          | None \<Rightarrow>
                              (let cur1 = cur\<lparr>Prepares := msgSetAdd (Prepares cur) msg\<rparr>;
                                   c1 = c\<lparr>current := Some cur1\<rparr>
                               in if MinQuorumSize e vs \<le> int (Size (Prepares cur1))
                                     \<and> state c1 = StatePreprepared
                                  then
                                    (let cur2 = cur1\<lparr>preparedCertificate :=
                                           \<lparr>pcProposal = (case Proposal_of cur1 of
                                                            Some p \<Rightarrow> p
                                                          | None \<Rightarrow> pcProposal (preparedCertificate cur1)),
                                            PrepareOrCommitMessages = Values (Prepares cur1)\<rparr>\<rparr>;
                                         (c2, a2) = setState (c1\<lparr>current := Some cur2\<rparr>)
                                                      StatePrepared
                                     in Inr (Inr (c2, a2 @ [SendCommit prepare])))
                                  else Inr (Inr (c1, []))))))))"

text \<open>
  Modelled from the spec: \<^verbatim>\<open>core.verifyPreparedCertificate\<close> (in \<^verbatim>\<open>prepare.go\<close>,
  outside the sources; \<^verbatim>\<open>TestVerifyPreparedCertificate\<close> calls it), from the validity
  conditions of section 4.3. The number of messages is checked first; then the messages
  are checked one after the other, each for its signature, its sender (not seen before),
  its code, its view (a sequence not after the current one, the view of the messages
  before it) and its digest. The test fixes this much of the order: a certificate whose
  second message repeats the first and whose proposal has another hash gives
  \<open>errInvalidPreparedCertificateDigestMismatch\<close>, so the digest of a message is checked
  before the sender of the next. The spec names no error for a bad signature or an
  undecodable message of a certificate; the model takes \<open>errInvalidMessage\<close> and
  \<open>errFailedDecodePrepare\<close>, \<open>errFailedDecodeCommit\<close> of its list of errors, and
  \<open>errInvalidPreparedCertificateMsgView\<close> for messages of different views.
\<close>

definition checkCertificateMessage ::
  "env \<Rightarrow> int \<Rightarrow> hash \<Rightarrow> address list \<Rightarrow> msgView option \<Rightarrow> message \<Rightarrow> error + msgView" where
  "checkCertificateMessage e seq digest seen view message =
     (if \<not> ValidSignature e message then Inl errInvalidMessage
      else if Address message \<in> set seen then Inl errInvalidPreparedCertificateDuplicate
      else if Code message \<noteq> MsgPrepare \<and> Code message \<noteq> MsgCommit
      then Inl errInvalidPreparedCertificateMsgCode
      else case DecodeSubject e message of
             None \<Rightarrow>
               Inl (if Code message = MsgPrepare then errFailedDecodePrepare
                    else errFailedDecodeCommit)
           | Some s \<Rightarrow>
               (case vSequence (View s) of
                  None \<Rightarrow> Inl errInvalidPreparedCertificateMsgView
                | Some sq \<Rightarrow>
                    if seq < sq then Inl errInvalidPreparedCertificateMsgView
                    else if view \<noteq> None \<and> view \<noteq> Some (View s)
                    then Inl errInvalidPreparedCertificateMsgView
                    else if Digest s \<noteq> digest
                    then Inl errInvalidPreparedCertificateDigestMismatch
                    else Inr (View s)))"

fun verifyCertificateMessages ::
  "env \<Rightarrow> int \<Rightarrow> hash \<Rightarrow> address list \<Rightarrow> msgView option \<Rightarrow> message list \<Rightarrow> error option" where
  "verifyCertificateMessages e seq digest seen view [] = None"
| "verifyCertificateMessages e seq digest seen view (message # rest) =
     (case checkCertificateMessage e seq digest seen view message of
        Inl err \<Rightarrow> Some err
      | Inr v \<Rightarrow> verifyCertificateMessages e seq digest (Address message # seen) (Some v) rest)"

definition verifyPreparedCertificate ::
  "env \<Rightarrow> core \<Rightarrow> PreparedCertificate \<Rightarrow> panic + error option" where
  "verifyPreparedCertificate e c cert =
     (case current c of
        None \<Rightarrow> Inl NilPointerDereference
      | Some cur \<Rightarrow>
          (case valSet c of
             None \<Rightarrow> Inl NilPointerDereference
           | Some vs \<Rightarrow>
               if int (length (PrepareOrCommitMessages cert)) \<noteq> MinQuorumSize e vs
               then Inr (Some errInvalidPreparedCertificateNumMsgs)
               else Inr (verifyCertificateMessages e (sequence cur) (Hash (pcProposal cert))
                           [] None (PrepareOrCommitMessages cert))))"

text \<open>
  The validity of a prepared certificate in the words of section 4.3: exactly
  \<open>minQuorumSize\<close> messages; each with a signature that verifies, the code PREPARE or
  COMMIT, a sequence not after the current one and the digest of the certificate's
  proposal; all of one view; no two of one sender.
\<close>

definition validCertificateMessage :: "env \<Rightarrow> int \<Rightarrow> hash \<Rightarrow> message \<Rightarrow> bool" where
  "validCertificateMessage e seq digest m =
     (ValidSignature e m \<and> (Code m = MsgPrepare \<or> Code m = MsgCommit)
      \<and> (case DecodeSubject e m of
            None \<Rightarrow> False
          | Some s \<Rightarrow>
              (case vSequence (View s) of None \<Rightarrow> False | Some sq \<Rightarrow> sq \<le> seq)
              \<and> Digest s = digest))"

definition sameViews :: "env \<Rightarrow> message list \<Rightarrow> bool" where
  "sameViews e ms =
     (\<forall>m\<in>set ms. \<forall>m'\<in>set ms.
        map_option View (DecodeSubject e m) = map_option View (DecodeSubject e m'))"

definition validPreparedCertificate ::
  "env \<Rightarrow> validatorSet \<Rightarrow> roundState \<Rightarrow> PreparedCertificate \<Rightarrow> bool" where
  "validPreparedCertificate e vs cur cert =
     (int (length (PrepareOrCommitMessages cert)) = MinQuorumSize e vs
      \<and> (\<forall>m\<in>set (PrepareOrCommitMessages cert).
            validCertificateMessage e (sequence cur) (Hash (pcProposal cert)) m)
      \<and> sameViews e (PrepareOrCommitMessages cert)
      \<and> distinct (map Address (PrepareOrCommitMessages cert)))"

text \<open>
  What can be wrong with one message of a certificate: a sequence that is missing or after
  the current one, a digest that is not the proposal's, a view that is not the one of the
  messages before it.
\<close>

definition badSequence :: "env \<Rightarrow> int \<Rightarrow> message \<Rightarrow> bool" where
  "badSequence e seq m =
     (case DecodeSubject e m of
        None \<Rightarrow> False
      | Some s \<Rightarrow> (case vSequence (View s) of None \<Rightarrow> True | Some sq \<Rightarrow> seq < sq))"

definition badDigest :: "env \<Rightarrow> hash \<Rightarrow> message \<Rightarrow> bool" where
  "badDigest e d m = (case DecodeSubject e m of None \<Rightarrow> False | Some s \<Rightarrow> Digest s \<noteq> d)"

definition otherView :: "env \<Rightarrow> msgView option \<Rightarrow> message \<Rightarrow> bool" where
  "otherView e view m =
     (case view of
        None \<Rightarrow> False
      | Some v \<Rightarrow> (case DecodeSubject e m of None \<Rightarrow> False | Some s \<Rightarrow> View s \<noteq> v))"

text \<open>
  The condition an error of the certificate check names, as violated by a certificate:
  what the name of the error says. An error that the check never returns names none.
\<close>

definition violates ::
  "env \<Rightarrow> validatorSet \<Rightarrow> roundState \<Rightarrow> PreparedCertificate \<Rightarrow> error \<Rightarrow> bool" where
  "violates e vs cur cert err =
     (let ms = PrepareOrCommitMessages cert in
      if err = errInvalidPreparedCertificateNumMsgs then int (length ms) \<noteq> MinQuorumSize e vs
      else if err = errInvalidPreparedCertificateDuplicate then \<not> distinct (map Address ms)
      else if err = errInvalidPreparedCertificateMsgCode
      then \<exists>m\<in>set ms. Code m \<noteq> MsgPrepare \<and> Code m \<noteq> MsgCommit
      else if err = errInvalidPreparedCertificateMsgView
      then (\<exists>m\<in>set ms. badSequence e (sequence cur) m) \<or> \<not> sameViews e ms
      else if err = errInvalidPreparedCertificateDigestMismatch
      then \<exists>m\<in>set ms. badDigest e (Hash (pcProposal cert)) m
      else if err = errInvalidMessage then \<exists>m\<in>set ms. \<not> ValidSignature e m
      else if err = errFailedDecodePrepare \<or> err = errFailedDecodeCommit
      then \<exists>m\<in>set ms. DecodeSubject e m = None
      else False)"

text \<open>
  The same for the loop over the messages, started with the senders \<open>seen\<close> and the view
  \<open>view\<close> of the messages before: what a result of the loop says about the messages.
\<close>

definition cause ::
  "env \<Rightarrow> int \<Rightarrow> hash \<Rightarrow> address list \<Rightarrow> msgView option \<Rightarrow> message list \<Rightarrow> error \<Rightarrow> bool" where
  "cause e seq d seen view ms err =
     (if err = errInvalidMessage then \<exists>m\<in>set ms. \<not> ValidSignature e m
      else if err = errInvalidPreparedCertificateDuplicate
      then \<not> distinct (map Address ms) \<or> (\<exists>m\<in>set ms. Address m \<in> set seen)
      else if err = errInvalidPreparedCertificateMsgCode
      then \<exists>m\<in>set ms. Code m \<noteq> MsgPrepare \<and> Code m \<noteq> MsgCommit
      else if err = errFailedDecodePrepare \<or> err = errFailedDecodeCommit
      then \<exists>m\<in>set ms. DecodeSubject e m = None
      else if err = errInvalidPreparedCertificateMsgView
      then (\<exists>m\<in>set ms. badSequence e seq m) \<or> \<not> sameViews e ms
           \<or> (\<exists>m\<in>set ms. otherView e view m)
      else if err = errInvalidPreparedCertificateDigestMismatch
      then \<exists>m\<in>set ms. badDigest e d m
      else False)"

text \<open>The certificates of TestVerifyPreparedCertificate, for the view (1, 0).\<close>

definition testCertificate :: "8 word \<Rightarrow> PreparedCertificate" where
  "testCertificate sq =
     \<lparr>pcProposal = exampleProposal,
      PrepareOrCommitMessages =
        [examplePrepare 1 sq 0 11, examplePrepare 2 sq 0 11, examplePrepare 3 sq 0 11]\<rparr>"

definition testProposerCore :: core where
  "testProposerCore =
     exampleCore
       \<lparr>state := StatePreprepared,
        current := Some (exampleRoundState
          \<lparr>preprepare := Some \<lparr>ppView = \<lparr>Sequence = 1, Round = 0\<rparr>,
                                ppProposal = exampleProposal,
                                ppRoundChangeCertificate = \<lparr>RoundChangeMessages = []\<rparr>\<rparr>\<rparr>)\<rparr>"

section \<open>Facts about the helpers\<close>

lemma sint_small: "uint (w :: 64 word) < 2 ^ 63 \<Longrightarrow> sint w = uint w"
proof -
  assume a: "uint w < 2 ^ 63"
  have "sint w = signed_take_bit 63 (uint w)"
    by (simp add: sint_uint)
  also have "\<dots> = uint w"
  proof (rule signed_take_bit_int_eq_self)
    have "(0::int) \<le> uint w" by simp
    moreover have "- (2 ^ 63) \<le> (0::int)" by simp
    ultimately show "- (2 ^ 63) \<le> uint w" by (rule order_trans[rotated])
    show "uint w < 2 ^ 63" by (rule a)
  qed
  finally show ?thesis .
qed

lemma sint_Int64_pred:
  assumes "0 \<le> x" and "x < 2 ^ 63"
  shows "sint (Int64 x - 1) = x - 1"
proof -
  have e: "word_of_int x - 1 = (word_of_int (x - 1) :: 64 word)"
    by simp
  have "sint (word_of_int (x - 1) :: 64 word) = signed_take_bit 63 (x - 1)"
    by (simp only: sint_sbintrunc') simp
  also have "\<dots> = x - 1"
    using assms by (intro signed_take_bit_int_eq_self) auto
  finally show ?thesis unfolding Int64_def e .
qed

lemma Uint64_nat: "k < 2 ^ 64 \<Longrightarrow> unat (Uint64 (int k)) = k"
  by (simp add: Uint64_def unat_of_nat)


lemma unat_pow_min: "unat (2 ^ min k 5 :: 64 word) = 2 ^ min k 5"
proof -
  have "min k 5 \<in> {0, 1, 2, 3, 4, 5}" by (auto simp: min_def)
  then show ?thesis by auto
qed

lemma setState_simps:
  "setState c StateWaitingForNewRound = (c\<lparr>state := StateWaitingForNewRound\<rparr>, [ProcessBacklog])"
  "setState c StateCommitted = (c\<lparr>state := StateCommitted\<rparr>, [ProcessBacklog])"
  "setState c StateAcceptRequest =
     (c\<lparr>state := StateAcceptRequest\<rparr>, [ProcessPendingRequests, ProcessBacklog])"
  by (simp_all add: setState_def)

lemma stopTimer_config: "config (stopTimer c) = config c"
  by (simp add: stopTimer_def stopFuturePreprepareTimer_def Let_def)

lemma newRoundChangeTimerForView_fields:
  "config (newRoundChangeTimerForView c v) = config c"
  "state (newRoundChangeTimerForView c v) = state c"
  "valSet (newRoundChangeTimerForView c v) = valSet c"
  "current (newRoundChangeTimerForView c v) = current c"
  "roundChangeSet (newRoundChangeTimerForView c v) = roundChangeSet c"
  "futurePreprepareTimer (newRoundChangeTimerForView c v) = Stop (futurePreprepareTimer c)"
  "consensusTimestamp (newRoundChangeTimerForView c v) = consensusTimestamp c"
  "address (newRoundChangeTimerForView c v) = address c"
  by (simp_all add: newRoundChangeTimerForView_def stopTimer_def stopFuturePreprepareTimer_def
      Let_def)

lemma newRoundChangeTimerForView_timer:
  "roundChangeTimer (newRoundChangeTimerForView c v) =
     Some \<lparr>duration = RequestTimeout (config c) * Millisecond
               + (if Uint64 (Round v) = 0 then BlockPeriod (config c) * Second
                  else backoff (Uint64 (Round v)) * Second),
           sends = timeoutEvent v, stopped = False\<rparr>"
  by (simp add: newRoundChangeTimerForView_def Let_def stopTimer_config)


lemma duration_value:
  assumes k: "k < 2 ^ 64" and fit: "roundTimeoutNanos cfg k < 2 ^ 63"
  shows "sint (RequestTimeout cfg * Millisecond
               + (if Uint64 (int k) = 0 then BlockPeriod cfg * Second
                  else backoff (Uint64 (int k)) * Second))
         = int (roundTimeoutNanos cfg k)"
proof -
  let ?X = "(if Uint64 (int k) = 0 then BlockPeriod cfg else backoff (Uint64 (int k)))"
  let ?d = "RequestTimeout cfg * 1000000 + ?X * 1000000000"
  have u: "unat (Uint64 (int k)) = k" using k by (rule Uint64_nat)
  have z: "(Uint64 (int k) = 0) = (k = 0)"
    using u by (metis unat_0 unat_eq_0)
  have X: "unat ?X = roundBackoffSeconds cfg k"
    by (simp add: z roundBackoffSeconds_def backoff_def u unat_pow_min)
  have eq: "RequestTimeout cfg * Millisecond
               + (if Uint64 (int k) = 0 then BlockPeriod cfg * Second
                  else backoff (Uint64 (int k)) * Second) = ?d"
    by (simp add: Millisecond_def Second_def)
  have "unat ?d = (unat (RequestTimeout cfg) * 1000000 + unat ?X * 1000000000) mod 2 ^ 64"
    by (simp add: unat_word_ariths mod_simps)
  also have "\<dots> = roundTimeoutNanos cfg k"
    using fit by (simp add: X roundTimeoutNanos_def)
  finally have un: "unat ?d = roundTimeoutNanos cfg k" .
  then have ui: "uint ?d = int (roundTimeoutNanos cfg k)"
    by (metis uint_nat)
  moreover from this fit have "uint ?d < 2 ^ 63"
    by simp
  ultimately show ?thesis unfolding eq using sint_small by metis
qed

lemma roundBackoffSeconds_cap:
  "5 \<le> k \<Longrightarrow> roundBackoffSeconds cfg k = 32"
  "0 < k \<Longrightarrow> roundBackoffSeconds cfg k \<le> 32"
proof -
  show "5 \<le> k \<Longrightarrow> roundBackoffSeconds cfg k = 32"
    by (simp add: roundBackoffSeconds_def min_def)
  assume "0 < k"
  then have "roundBackoffSeconds cfg k = 2 ^ min k 5"
    by (simp add: roundBackoffSeconds_def)
  also have "\<dots> \<le> (2::nat) ^ 5"
    by (rule power_increasing) simp_all
  finally show "roundBackoffSeconds cfg k \<le> 32" by simp
qed

section \<open>Facts about starting a round\<close>

lemma view_eta: "\<lparr>Sequence = Sequence v, Round = Round v\<rparr> = (v::view)"
  by simp

lemma enterRound_roundChange:
  assumes "valSet c = Some vs" and "current c = Some cur"
  shows "enterRound e c v request cert True lastProposer =
     Inr (newRoundChangeTimerForView
            (c\<lparr>roundChangeSet := Some (newRoundChangeSet vs),
               current := Some (newRoundState v vs None (pendingRequest cur)
                                  (preparedCertificate cur)),
               valSet := Some (CalcProposer e vs lastProposer (Uint64 (Round v))),
               state := StateAcceptRequest\<rparr>) v,
          [ProcessPendingRequests, ProcessBacklog]
          @ (case request of
               None \<Rightarrow> []
             | Some rq \<Rightarrow>
                 if IsProposer e (CalcProposer e vs lastProposer (Uint64 (Round v)))
                      (backend_Address e)
                 then [SendPreprepare rq cert] else [])
          @ [Log LvlDebug ''New round''])"
  using assms
  by (simp add: enterRound_def updateRoundState_def setState_simps Let_def isProposer_def
      newRoundChangeTimer_def currentView_def newRoundState_def view_eta split: option.splits)

lemma enterRound_newSequence:
  assumes "valSet c = Some vs"
  shows "enterRound e c v request cert False lastProposer =
     Inr (newRoundChangeTimerForView
            (c\<lparr>roundChangeSet := Some (newRoundChangeSet vs),
               current := Some (newRoundState v vs None None (EmptyPreparedCertificate e)),
               valSet := Some (CalcProposer e vs lastProposer (Uint64 (Round v))),
               state := StateAcceptRequest\<rparr>) v,
          [ProcessPendingRequests, ProcessBacklog, Log LvlDebug ''New round''])"
  using assms
  by (simp add: enterRound_def updateRoundState_def setState_simps Let_def isProposer_def
      newRoundChangeTimer_def currentView_def newRoundState_def view_eta split: option.splits)

lemma searchRequest_none:
  "\<forall>m\<in>set ms. \<forall>v p. embeddedCertificate e m = Some (v, p) \<longrightarrow> Round v \<le> maxRound
   \<Longrightarrow> searchRequest e ms maxRound request = request"
  by (induction ms arbitrary: maxRound request)
     (auto simp: embeddedCertificate_def split: option.splits)

lemma searchRequest_some:
  "\<exists>m\<in>set ms. \<exists>v p. embeddedCertificate e m = Some (v, p) \<and> maxRound < Round v
   \<Longrightarrow> \<exists>m\<in>set ms. \<exists>v p. embeddedCertificate e m = Some (v, p) \<and> maxRound < Round v
         \<and> searchRequest e ms maxRound request = Some \<lparr>Proposal = p\<rparr>
         \<and> (\<forall>m'\<in>set ms. \<forall>v' p'. embeddedCertificate e m' = Some (v', p')
               \<longrightarrow> Round v' \<le> Round v)"
proof (induction ms arbitrary: maxRound request)
  case Nil
  then show ?case by simp
next
  case (Cons a ms)
  show ?case
  proof (cases "\<exists>v p. embeddedCertificate e a = Some (v, p) \<and> maxRound < Round v")
    case True
    then obtain v p where a: "embeddedCertificate e a = Some (v, p)" "maxRound < Round v"
      by blast
    then have step: "searchRequest e (a # ms) maxRound request
                     = searchRequest e ms (Round v) (Some \<lparr>Proposal = p\<rparr>)"
      by (auto simp: embeddedCertificate_def split: option.splits if_splits)
    show ?thesis
    proof (cases "\<exists>m\<in>set ms. \<exists>v' p'. embeddedCertificate e m = Some (v', p') \<and> Round v < Round v'")
      case True
      from Cons.IH [OF True, of "Some \<lparr>Proposal = p\<rparr>"]
      obtain m w q where m: "m \<in> set ms" "embeddedCertificate e m = Some (w, q)"
        "Round v < Round w"
        "searchRequest e ms (Round v) (Some \<lparr>Proposal = p\<rparr>) = Some \<lparr>Proposal = q\<rparr>"
        "\<forall>m'\<in>set ms. \<forall>v' p'. embeddedCertificate e m' = Some (v', p') \<longrightarrow> Round v' \<le> Round w"
        by blast
      show ?thesis
        using m a step by (intro bexI [of _ m]) auto
    next
      case False
      then have "\<forall>m\<in>set ms. \<forall>v' p'. embeddedCertificate e m = Some (v', p') \<longrightarrow> Round v' \<le> Round v"
        by (meson not_less)
      from searchRequest_none [OF this] this a step
      show ?thesis
        by auto
    qed
  next
    case False
    then have step: "searchRequest e (a # ms) maxRound request = searchRequest e ms maxRound request"
      by (auto simp: embeddedCertificate_def split: option.splits if_splits)
    from False Cons.prems
    have "\<exists>m\<in>set ms. \<exists>v p. embeddedCertificate e m = Some (v, p) \<and> maxRound < Round v"
      by auto
    from Cons.IH [OF this, of request]
    obtain m w q where m: "m \<in> set ms" "embeddedCertificate e m = Some (w, q)"
        "maxRound < Round w"
        "searchRequest e ms maxRound request = Some \<lparr>Proposal = q\<rparr>"
        "\<forall>m'\<in>set ms. \<forall>v' p'. embeddedCertificate e m' = Some (v', p') \<longrightarrow> Round v' \<le> Round w"
      by blast
    show ?thesis
      using m False step by (intro bexI [of _ m]) (auto simp: not_less)
  qed
qed

lemma getPreprepare_ok:
  assumes "current c = Some cur" and "valSet c = Some vs" and "roundChangeSet c = Some rcs"
  shows "getPreprepareWithRoundChangeCertificate e c r =
           (case getCertificate e rcs r (MinQuorumSize e vs) of
              Inl err \<Rightarrow> Inr (Inl err)
            | Inr cert \<Rightarrow>
                Inr (Inr (searchRequest e (RoundChangeMessages cert) (- 1) (pendingRequest cur),
                          cert)))"
  using assms by (simp add: getPreprepareWithRoundChangeCertificate_def split: sum.splits)

lemma startNewRound_advance:
  assumes "current c = Some cur"
    and "backend_LastProposal e = (lastProposal, lastProposer)"
    and "sequence cur \<le> Number lastProposal"
  shows "\<exists>c' acts. startNewRound e c r = Inr (c', acts)
          \<and> current c' = Some (newRoundState \<lparr>Sequence = Number lastProposal + 1, Round = 0\<rparr>
                                 (backend_Validators e lastProposal) None None
                                 (EmptyPreparedCertificate e))
          \<and> valSet c' = Some (CalcProposer e (backend_Validators e lastProposal) lastProposer 0)
          \<and> roundChangeSet c' = Some (newRoundChangeSet (backend_Validators e lastProposal))
          \<and> state c' = StateAcceptRequest"
  using assms
  by (simp add: startNewRound_def generateAndEnter_def enterRound_newSequence
      newRoundChangeTimerForView_fields Uint64_def)

lemma startNewRound_roundChange:
  assumes "current c = Some cur" and "valSet c = Some vs" and "roundChangeSet c = Some rcs"
    and "backend_LastProposal e = (lastProposal, lastProposer)"
    and "0 \<le> sequence cur" and "sequence cur < 2 ^ 63"
    and "Number lastProposal = sequence cur - 1" and "round cur < r"
    and "getCertificate e rcs r (MinQuorumSize e vs) = Inr cert"
  shows "startNewRound e c r =
     Inr (newRoundChangeTimerForView
            (c\<lparr>roundChangeSet := Some (newRoundChangeSet vs),
               current := Some (newRoundState \<lparr>Sequence = sequence cur, Round = r\<rparr> vs None
                                  (pendingRequest cur) (preparedCertificate cur)),
               valSet := Some (CalcProposer e vs lastProposer (Uint64 r)),
               state := StateAcceptRequest\<rparr>) \<lparr>Sequence = sequence cur, Round = r\<rparr>,
          [ProcessPendingRequests, ProcessBacklog]
          @ (case searchRequest e (RoundChangeMessages cert) (- 1) (pendingRequest cur) of
               None \<Rightarrow> []
             | Some rq \<Rightarrow>
                 if IsProposer e (CalcProposer e vs lastProposer (Uint64 r)) (backend_Address e)
                 then [SendPreprepare rq cert] else [])
          @ [Log LvlDebug ''New round''])"
proof -
  have b: "sint (Int64 (sequence cur) - 1) = sequence cur - 1"
    using assms(5,6) by (rule sint_Int64_pred)
  show ?thesis
    using assms(1-4,7-9)
    by (simp add: startNewRound_def generateAndEnter_def b getPreprepare_ok
        enterRound_roundChange cong: option.case_cong if_cong)
qed

lemma startNewRound_noCertificate:
  assumes "current c = Some cur" and "valSet c = Some vs" and "roundChangeSet c = Some rcs"
    and "backend_LastProposal e = (lastProposal, lastProposer)"
    and "0 \<le> sequence cur" and "sequence cur < 2 ^ 63"
    and "Number lastProposal = sequence cur - 1" and "round cur < r"
    and "getCertificate e rcs r (MinQuorumSize e vs) = Inl err"
  shows "startNewRound e c r =
           Inr (c, [Log LvlError ''Unable to produce round change certificate''])"
proof -
  have b: "sint (Int64 (sequence cur) - 1) = sequence cur - 1"
    using assms(5,6) by (rule sint_Int64_pred)
  show ?thesis
    using assms(1-4,7-9)
    by (simp add: startNewRound_def generateAndEnter_def b getPreprepare_ok)
qed

lemma startNewRound_stale:
  assumes "current c = Some cur"
    and "backend_LastProposal e = (lastProposal, lastProposer)"
    and "0 \<le> sequence cur" and "sequence cur < 2 ^ 63"
    and "Number lastProposal < sequence cur"
    and "\<not> (Number lastProposal = sequence cur - 1 \<and> round cur < r)"
  shows "\<exists>l s. startNewRound e c r = Inr (c, [Log l s])"
proof -
  have b: "sint (Int64 (sequence cur) - 1) = sequence cur - 1"
    using assms(3,4) by (rule sint_Int64_pred)
  show ?thesis
    using assms(1,2,5,6)
    by (auto simp add: startNewRound_def b)
qed

section \<open>Facts about the four-validator system\<close>

lemma example_fields:
  "current exampleCore = Some exampleRoundState"
  "valSet exampleCore = Some exampleValSet"
  "roundChangeSet exampleCore = Some exampleRoundChangeSet"
  "backend_LastProposal exampleEnv = (\<lparr>Number = 0, Hash = 10\<rparr>, 1)"
  "backend_LastProposal aheadEnv = (\<lparr>Number = 2, Hash = 12\<rparr>, 1)"
  "sequence exampleRoundState = 1"
  "round exampleRoundState = 0"
  "pendingRequest exampleRoundState = Some \<lparr>Proposal = exampleProposal\<rparr>"
  "preparedCertificate exampleRoundState = emptyCertificate"
  by (simp_all add: exampleCore_def exampleEnv_def aheadEnv_def exampleRoundState_def)

lemma example_certificate:
  "getCertificate exampleEnv exampleRoundChangeSet 1 (MinQuorumSize exampleEnv exampleValSet) =
     Inr \<lparr>RoundChangeMessages =
            [exampleRoundChange 1 [1], exampleRoundChange 3 [1, 0], exampleRoundChange 4 [1]]\<rparr>"
  "getCertificate exampleEnv exampleRoundChangeSet 2 (MinQuorumSize exampleEnv exampleValSet) =
     Inl (errOther ''no round change certificate'')"
  by (simp_all add: exampleEnv_def exampleGetCertificate_def exampleRoundChangeSet_def
      Size_def Values_def)

lemma example_embedded:
  "embeddedCertificate exampleEnv (exampleRoundChange a [r]) = None"
  "embeddedCertificate exampleEnv (exampleRoundChange a [r, pr]) =
     Some (\<lparr>Sequence = 1, Round = uint pr\<rparr>, preparedProposal)"
  by (simp_all add: embeddedCertificate_def exampleEnv_def exampleDecodeRoundChange_def
      exampleRoundChange_def examplePreparedCertificateView_def emptyCertificate_def
      examplePrepare_def)

lemma example_proposer:
  "IsProposer exampleEnv (CalcProposer exampleEnv exampleValSet 1 (Uint64 1))
     (backend_Address exampleEnv)"
  by (simp add: exampleEnv_def Uint64_def)

section \<open>Waiting for a desired round\<close>




section \<open>Facts about the round change set\<close>

lemma keys_delete: "fst ` set (AList.delete k al) = fst ` set al - {k}"
proof -
  have "fst ` set (AList.delete k al) = set (map fst (AList.delete k al))" by simp
  also have "\<dots> = set (removeAll k (map fst al))" by (simp only: delete_keys)
  also have "\<dots> = fst ` set al - {k}" by auto
  finally show ?thesis .
qed

lemma length_update:
  "length (AList.update k v al) = (if k \<in> fst ` set al then length al else Suc (length al))"
  by (induction al) auto

lemma msgSetAdd_twice: "msgSetAdd (msgSetAdd ms msg) msg = msgSetAdd ms msg"
  by (simp add: msgSetAdd_def)

lemma Size_msgSetAdd_same:
  "Address msg' = Address msg \<Longrightarrow> Size (msgSetAdd (msgSetAdd ms msg) msg') = Size (msgSetAdd ms msg)"
  by (simp add: msgSetAdd_def Size_def length_update dom_update)

lemma keys_msgSetAdd: "sendersOf (msgSetAdd ms msg) = insert (Address msg) (sendersOf ms)"
  by (simp add: msgSetAdd_def dom_update sendersOf_def)

lemma map_of_msgSetAdd: "map_of (msgSetAdd ms msg) (Address msg) = Some msg"
  by (simp add: msgSetAdd_def update_conv')

lemma keys_msgSetRemove: "sendersOf (msgSetRemove ms a) = sendersOf ms - {a}"
  by (simp add: msgSetRemove_def keys_delete sendersOf_def)

lemma lookup_update:
  "(case map_of (AList.update k v m) r of None \<Rightarrow> [] | Some ms \<Rightarrow> ms)
     = (if r = k then v else (case map_of m r of None \<Rightarrow> [] | Some ms \<Rightarrow> ms))"
  by (simp add: update_conv')

text \<open>The three ways \<open>Add\<close> goes, each as an equation.\<close>

lemma Add_lower:
  "map_of (latestRoundForVal rcs) (Address msg) = Some p \<Longrightarrow> r < p \<Longrightarrow> Add rcs r msg = rcs"
  by (simp add: Add_def)

lemma Add_same_or_new:
  "map_of (latestRoundForVal rcs) (Address msg) = None
   \<or> map_of (latestRoundForVal rcs) (Address msg) = Some r \<Longrightarrow>
   Add rcs r msg =
     \<lparr>msgsForRound = AList.update r (msgSetAdd (messagesAt rcs r) msg) (msgsForRound rcs),
      latestRoundForVal = AList.update (Address msg) r (latestRoundForVal rcs)\<rparr>"
  by (auto simp: Add_def messagesAt_def Let_def)

lemma Add_higher:
  "map_of (latestRoundForVal rcs) (Address msg) = Some p \<Longrightarrow> p < r \<Longrightarrow>
   Add rcs r msg =
     \<lparr>msgsForRound =
        AList.update r (msgSetAdd (messagesAt rcs r) msg)
          (AList.update p (msgSetRemove (messagesAt rcs p) (Address msg)) (msgsForRound rcs)),
      latestRoundForVal = AList.update (Address msg) r (latestRoundForVal rcs)\<rparr>"
proof -
  assume a: "map_of (latestRoundForVal rcs) (Address msg) = Some p" and "p < r"
  then have "r \<noteq> p" by simp
  then show ?thesis
    using a \<open>p < r\<close> by (simp add: Add_def messagesAt_def Let_def lookup_update)
qed

lemma Add_cases:
  obtains (lower) p where "map_of (latestRoundForVal rcs) (Address msg) = Some p" "r < p"
  | (same_or_new) "map_of (latestRoundForVal rcs) (Address msg) = None
                   \<or> map_of (latestRoundForVal rcs) (Address msg) = Some r"
  | (higher) p where "map_of (latestRoundForVal rcs) (Address msg) = Some p" "p < r"
proof (cases "map_of (latestRoundForVal rcs) (Address msg)")
  case None
  then show thesis using same_or_new by simp
next
  case (Some p)
  then show thesis
    using lower [of p] higher [of p] same_or_new
    by (cases p r rule: linorder_cases) auto
qed

lemma latest_Add:
  "map_of (latestRoundForVal (Add rcs r msg)) a =
     (if a = Address msg
      then Some (case map_of (latestRoundForVal rcs) a of None \<Rightarrow> r | Some p \<Rightarrow> max p r)
      else map_of (latestRoundForVal rcs) a)"
  by (cases rule: Add_cases [of rcs msg r])
     (auto simp: Add_lower Add_same_or_new Add_higher update_conv' max_def)

lemma messagesAt_Add_at:
  "map_of (latestRoundForVal (Add rcs r msg)) (Address msg) = Some r \<Longrightarrow>
   messagesAt (Add rcs r msg) r = msgSetAdd (messagesAt rcs r) msg"
  by (cases rule: Add_cases [of rcs msg r])
     (auto simp: Add_lower Add_same_or_new Add_higher lookup_update messagesAt_def)

lemma keys_messagesAt_Add:
  "a \<in> sendersOf (messagesAt (Add rcs r msg) r') \<longleftrightarrow>
     (case map_of (latestRoundForVal rcs) (Address msg) of
        None \<Rightarrow> (a = Address msg \<and> r' = r) \<or> a \<in> sendersOf (messagesAt rcs r')
      | Some p \<Rightarrow>
          if r < p then a \<in> sendersOf (messagesAt rcs r')
          else if p < r then
            (a = Address msg \<and> r' = r)
            \<or> (a \<in> sendersOf (messagesAt rcs r') \<and> \<not> (a = Address msg \<and> r' = p))
          else (a = Address msg \<and> r' = r) \<or> a \<in> sendersOf (messagesAt rcs r'))"
proof (cases rule: Add_cases [of rcs msg r])
  case (lower p)
  then show ?thesis by (simp add: Add_lower)
next
  case same_or_new
  have "messagesAt (Add rcs r msg) r'
        = (if r' = r then msgSetAdd (messagesAt rcs r) msg else messagesAt rcs r')"
    by (simp add: Add_same_or_new [OF same_or_new] messagesAt_def lookup_update)
  then show ?thesis
    using same_or_new by (auto simp: keys_msgSetAdd)
next
  case (higher p)
  then have "r \<noteq> p" by simp
  then have "messagesAt (Add rcs r msg) r'
        = (if r' = r then msgSetAdd (messagesAt rcs r) msg
           else if r' = p then msgSetRemove (messagesAt rcs p) (Address msg)
           else messagesAt rcs r')"
    by (simp add: Add_higher [OF higher] messagesAt_def lookup_update)
  then show ?thesis
    using higher by (auto simp: keys_msgSetAdd keys_msgSetRemove)
qed

lemma Add_idempotent: "Add (Add rcs r msg) r msg = Add rcs r msg"
proof (cases rule: Add_cases [of rcs msg r])
  case (lower p)
  then show ?thesis by (simp add: Add_lower)
next
  case same_or_new
  have l: "map_of (latestRoundForVal (Add rcs r msg)) (Address msg) = Some r"
    using same_or_new by (auto simp: latest_Add)
  then have "map_of (latestRoundForVal (Add rcs r msg)) (Address msg) = None
             \<or> map_of (latestRoundForVal (Add rcs r msg)) (Address msg) = Some r"
    by simp
  from Add_same_or_new [OF this] messagesAt_Add_at [OF l]
  show ?thesis
    by (simp add: msgSetAdd_twice) (simp add: Add_same_or_new [OF same_or_new])
next
  case (higher p)
  have l: "map_of (latestRoundForVal (Add rcs r msg)) (Address msg) = Some r"
    using higher by (auto simp: latest_Add)
  then have "map_of (latestRoundForVal (Add rcs r msg)) (Address msg) = None
             \<or> map_of (latestRoundForVal (Add rcs r msg)) (Address msg) = Some r"
    by simp
  from Add_same_or_new [OF this] messagesAt_Add_at [OF l]
  show ?thesis
    by (simp add: msgSetAdd_twice) (simp add: Add_higher [OF higher])
qed

lemma Add_same_sender_size:
  assumes "Address msg' = Address msg"
  shows "Size (messagesAt (Add (Add rcs r msg) r msg') r) = Size (messagesAt (Add rcs r msg) r)"
proof (cases rule: Add_cases [of rcs msg r])
  case (lower p)
  then have "Add rcs r msg = rcs" by (simp add: Add_lower)
  moreover from lower assms have "Add rcs r msg' = rcs" by (simp add: Add_lower)
  ultimately show ?thesis by simp
next
  case same_or_new
  then have l: "map_of (latestRoundForVal (Add rcs r msg)) (Address msg) = Some r"
    by (auto simp: latest_Add)
  then have l': "map_of (latestRoundForVal (Add (Add rcs r msg) r msg')) (Address msg') = Some r"
    using assms by (simp add: latest_Add [of "Add rcs r msg"])
  show ?thesis
    using messagesAt_Add_at [OF l'] messagesAt_Add_at [OF l] assms
    by (simp add: Size_msgSetAdd_same)
next
  case (higher p)
  then have l: "map_of (latestRoundForVal (Add rcs r msg)) (Address msg) = Some r"
    by (auto simp: latest_Add)
  then have l': "map_of (latestRoundForVal (Add (Add rcs r msg) r msg')) (Address msg') = Some r"
    using assms by (simp add: latest_Add [of "Add rcs r msg"])
  show ?thesis
    using messagesAt_Add_at [OF l'] messagesAt_Add_at [OF l] assms
    by (simp add: Size_msgSetAdd_same)
qed

lemma oneMessagePerSender_new: "oneMessagePerSender (newRoundChangeSet vs)"
  by (simp add: oneMessagePerSender_def newRoundChangeSet_def messagesAt_def sendersOf_def)

lemma oneMessagePerSender_Add:
  assumes "oneMessagePerSender rcs"
  shows "oneMessagePerSender (Add rcs r msg)"
  unfolding oneMessagePerSender_def
proof (intro allI)
  fix r' a
  from assms have inv: "\<And>r a. (a \<in> sendersOf (messagesAt rcs r))
                               = (map_of (latestRoundForVal rcs) a = Some r)"
    by (simp add: oneMessagePerSender_def)
  show "(a \<in> sendersOf (messagesAt (Add rcs r msg) r'))
        = (map_of (latestRoundForVal (Add rcs r msg)) a = Some r')"
    unfolding keys_messagesAt_Add latest_Add inv
    by (auto simp: max_def split: option.splits)
qed

lemma set_senders: "set (senders rcs) = dom (map_of (latestRoundForVal rcs))"
  by (simp add: senders_def dom_map_of_conv_image_fst)

lemma distinct_senders: "distinct (senders rcs)"
  by (simp add: senders_def)

lemma set_sendersAtLeast:
  "set (sendersAtLeast rcs R) = {a. \<exists>r. map_of (latestRoundForVal rcs) a = Some r \<and> R \<le> r}"
  by (auto simp: sendersAtLeast_def set_senders split: option.splits)

lemma distinct_sendersAtLeast: "distinct (sendersAtLeast rcs R)"
  by (simp add: sendersAtLeast_def distinct_senders)

lemma length_sendersAtLeast_mono:
  assumes "R \<le> R'"
  shows "length (sendersAtLeast rcs R') \<le> length (sendersAtLeast rcs R)"
proof -
  have "set (sendersAtLeast rcs R') \<subseteq> set (sendersAtLeast rcs R)"
    using assms by (auto simp: set_sendersAtLeast)
  then have "card (set (sendersAtLeast rcs R')) \<le> card (set (sendersAtLeast rcs R))"
    by (intro card_mono) simp_all
  then show ?thesis
    by (simp add: distinct_card distinct_sendersAtLeast)
qed

lemma length_sendersAtLeast_le: "length (sendersAtLeast rcs R) \<le> length (senders rcs)"
  by (simp add: sendersAtLeast_def)

lemma set_rounds:
  "set (List.map_filter (map_of (latestRoundForVal rcs)) (senders rcs))
     = ran (map_of (latestRoundForVal rcs))"
proof -
  let ?m = "map_of (latestRoundForVal rcs)"
  have "set (List.map_filter ?m (senders rcs)) = (\<lambda>a. the (?m a)) ` dom ?m"
    by (auto simp: List.map_filter_def set_senders domIff)
  also have "\<dots> = ran ?m"
  proof
    show "(\<lambda>a. the (?m a)) ` dom ?m \<subseteq> ran ?m"
      by (auto simp: ran_def)
    show "ran ?m \<subseteq> (\<lambda>a. the (?m a)) ` dom ?m"
    proof
      fix x assume "x \<in> ran ?m"
      then obtain a where a: "?m a = Some x" by (auto simp: ran_def)
      then have "x = the (?m a)" and "a \<in> dom ?m" by auto
      then show "x \<in> (\<lambda>a. the (?m a)) ` dom ?m" by (rule image_eqI)
    qed
  qed
  finally show ?thesis .
qed


lemma finite_reachedRounds: "finite (reachedRounds rcs t)"
  by (simp add: reachedRounds_def finite_ran)

lemma MaxRound_reached:
  "MaxRound rcs t =
     (if reachedRounds rcs t = {} then None else Some (Max (reachedRounds rcs t)))"
proof -
  let ?rounds = "List.map_filter (map_of (latestRoundForVal rcs)) (senders rcs)"
  let ?reached = "filter (\<lambda>R. t \<le> int (length (sendersAtLeast rcs R))) ?rounds"
  have s: "set ?reached = reachedRounds rcs t"
    by (auto simp: reachedRounds_def set_rounds)
  have e: "(?reached = []) = (reachedRounds rcs t = {})"
    using s by (metis set_empty)
  show ?thesis
    unfolding MaxRound_def Let_def e s by (rule refl)
qed

lemma MaxRound_Some_iff:
  "MaxRound rcs t = Some R \<longleftrightarrow>
     R \<in> reachedRounds rcs t \<and> (\<forall>R'\<in>reachedRounds rcs t. R' \<le> R)"
proof (cases "reachedRounds rcs t = {}")
  case True
  then show ?thesis by (auto simp: MaxRound_reached)
next
  case False
  have "Max (reachedRounds rcs t) \<in> reachedRounds rcs t"
    using finite_reachedRounds False by (rule Max_in)
  moreover have "\<forall>R'\<in>reachedRounds rcs t. R' \<le> Max (reachedRounds rcs t)"
    using finite_reachedRounds by (auto intro: Max_ge)
  moreover have "R \<in> reachedRounds rcs t \<and> (\<forall>R'\<in>reachedRounds rcs t. R' \<le> R)
                 \<Longrightarrow> Max (reachedRounds rcs t) = R"
    using finite_reachedRounds by (auto intro: Max_eqI)
  ultimately show ?thesis
    using False by (auto simp: MaxRound_reached)
qed

text \<open>A round with a sender at or above it is below a sender's latest round with the same senders.\<close>

lemma round_of_sender:
  assumes "sendersAtLeast rcs R \<noteq> []"
  shows "\<exists>R'. R \<le> R' \<and> R' \<in> ran (map_of (latestRoundForVal rcs))
              \<and> sendersAtLeast rcs R' = sendersAtLeast rcs R"
proof -
  let ?m = "map_of (latestRoundForVal rcs)"
  let ?A = "{r \<in> ran ?m. R \<le> r}"
  from assms obtain a where "a \<in> set (sendersAtLeast rcs R)"
    by (cases "sendersAtLeast rcs R") auto
  then obtain r where r: "?m a = Some r" "R \<le> r"
    by (auto simp: set_sendersAtLeast)
  then have ne: "?A \<noteq> {}" by (auto simp: ran_def)
  have fin: "finite ?A" by (simp add: finite_ran)
  let ?R' = "Min ?A"
  have in_A: "?R' \<in> ?A" using fin ne by (rule Min_in)
  have low: "\<And>x. x \<in> ?A \<Longrightarrow> ?R' \<le> x" using fin by (rule Min_le)
  have "\<And>b. (case ?m b of None \<Rightarrow> False | Some x \<Rightarrow> ?R' \<le> x)
            = (case ?m b of None \<Rightarrow> False | Some x \<Rightarrow> R \<le> x)"
  proof -
    fix b
    show "(case ?m b of None \<Rightarrow> False | Some x \<Rightarrow> ?R' \<le> x)
            = (case ?m b of None \<Rightarrow> False | Some x \<Rightarrow> R \<le> x)"
    proof (cases "?m b")
      case None
      then show ?thesis by simp
    next
      case (Some x)
      then have xr: "x \<in> ran ?m" by (auto simp: ran_def)
      show ?thesis
      proof
        assume "case ?m b of None \<Rightarrow> False | Some x \<Rightarrow> ?R' \<le> x"
        with Some have "?R' \<le> x" by simp
        moreover from in_A have "R \<le> ?R'" by simp
        ultimately show "case ?m b of None \<Rightarrow> False | Some x \<Rightarrow> R \<le> x"
          using Some by simp
      next
        assume "case ?m b of None \<Rightarrow> False | Some x \<Rightarrow> R \<le> x"
        with Some have "R \<le> x" by simp
        with xr have "x \<in> ?A" by simp
        then have "?R' \<le> x" by (rule low)
        then show "case ?m b of None \<Rightarrow> False | Some x \<Rightarrow> ?R' \<le> x"
          using Some by simp
      qed
    qed
  qed
  then have "sendersAtLeast rcs ?R' = sendersAtLeast rcs R"
    by (simp add: sendersAtLeast_def)
  with in_A show ?thesis by blast
qed

lemma MaxRound_largest:
  assumes "1 \<le> t"
  shows "MaxRound rcs t = Some R \<longleftrightarrow>
           t \<le> int (length (sendersAtLeast rcs R))
           \<and> (\<forall>R'. t \<le> int (length (sendersAtLeast rcs R')) \<longrightarrow> R' \<le> R)"
proof
  assume "MaxRound rcs t = Some R"
  then have R: "R \<in> reachedRounds rcs t" and top: "\<forall>R'\<in>reachedRounds rcs t. R' \<le> R"
    by (simp_all add: MaxRound_Some_iff)
  have "\<forall>R'. t \<le> int (length (sendersAtLeast rcs R')) \<longrightarrow> R' \<le> R"
  proof (intro allI impI)
    fix R'
    assume t: "t \<le> int (length (sendersAtLeast rcs R'))"
    with assms have "sendersAtLeast rcs R' \<noteq> []" by auto
    from round_of_sender [OF this] obtain R'' where
      "R' \<le> R''" "R'' \<in> ran (map_of (latestRoundForVal rcs))"
      "sendersAtLeast rcs R'' = sendersAtLeast rcs R'"
      by blast
    with t top show "R' \<le> R"
      by (force simp: reachedRounds_def)
  qed
  with R show "t \<le> int (length (sendersAtLeast rcs R))
           \<and> (\<forall>R'. t \<le> int (length (sendersAtLeast rcs R')) \<longrightarrow> R' \<le> R)"
    by (simp add: reachedRounds_def)
next
  assume a: "t \<le> int (length (sendersAtLeast rcs R))
           \<and> (\<forall>R'. t \<le> int (length (sendersAtLeast rcs R')) \<longrightarrow> R' \<le> R)"
  with assms have "sendersAtLeast rcs R \<noteq> []" by auto
  from round_of_sender [OF this] obtain R'' where
      R'': "R \<le> R''" "R'' \<in> ran (map_of (latestRoundForVal rcs))"
      "sendersAtLeast rcs R'' = sendersAtLeast rcs R"
    by blast
  with a have "R'' \<le> R" by simp
  with R'' have "R \<in> ran (map_of (latestRoundForVal rcs))" by simp
  with a show "MaxRound rcs t = Some R"
    by (simp add: MaxRound_Some_iff reachedRounds_def)
qed

lemma MaxRound_antitone:
  assumes "t1 \<le> t2" and "MaxRound rcs t2 = Some R2"
  shows "\<exists>R1. MaxRound rcs t1 = Some R1 \<and> R2 \<le> R1"
proof -
  from assms(2) have R2: "R2 \<in> reachedRounds rcs t2"
    by (simp add: MaxRound_Some_iff)
  with assms(1) have in1: "R2 \<in> reachedRounds rcs t1"
    by (simp add: reachedRounds_def)
  then have ne: "reachedRounds rcs t1 \<noteq> {}" by auto
  have "R2 \<le> Max (reachedRounds rcs t1)"
    using finite_reachedRounds in1 by (rule Max_ge)
  with ne show ?thesis by (simp add: MaxRound_reached)
qed

lemma MaxRound_nil:
  assumes "int (length (senders rcs)) < t"
  shows "MaxRound rcs t = None"
proof -
  have "\<And>R. int (length (sendersAtLeast rcs R)) < t"
    using assms length_sendersAtLeast_le [of rcs] by (meson le_less_trans of_nat_le_iff)
  then have "\<And>R. \<not> t \<le> int (length (sendersAtLeast rcs R))"
    by (simp add: not_le)
  then have "reachedRounds rcs t = {}"
    by (simp add: reachedRounds_def)
  then show ?thesis by (simp add: MaxRound_reached)
qed

section \<open>Checking a prepared certificate\<close>

lemma check_Inr_iff:
  "checkCertificateMessage e seq d seen view m = Inr v \<longleftrightarrow>
     validCertificateMessage e seq d m \<and> Address m \<notin> set seen
     \<and> map_option View (DecodeSubject e m) = Some v \<and> (view = None \<or> view = Some v)"
  by (auto simp: checkCertificateMessage_def validCertificateMessage_def
      split: option.splits if_splits)

lemma check_Inl_cases:
  assumes "checkCertificateMessage e seq d seen view m = Inl err"
  shows "(err = errInvalidMessage \<and> \<not> ValidSignature e m)
       \<or> (err = errInvalidPreparedCertificateDuplicate \<and> Address m \<in> set seen)
       \<or> (err = errInvalidPreparedCertificateMsgCode
           \<and> Code m \<noteq> MsgPrepare \<and> Code m \<noteq> MsgCommit)
       \<or> ((err = errFailedDecodePrepare \<or> err = errFailedDecodeCommit)
           \<and> DecodeSubject e m = None)
       \<or> (err = errInvalidPreparedCertificateMsgView
           \<and> (badSequence e seq m \<or> otherView e view m))
       \<or> (err = errInvalidPreparedCertificateDigestMismatch \<and> badDigest e d m)"
proof (cases "ValidSignature e m")
  case False
  with assms show ?thesis by (simp add: checkCertificateMessage_def)
next
  case sig: True
  show ?thesis
  proof (cases "Address m \<in> set seen")
    case True
    with assms sig show ?thesis by (simp add: checkCertificateMessage_def)
  next
    case fresh: False
    show ?thesis
    proof (cases "Code m \<noteq> MsgPrepare \<and> Code m \<noteq> MsgCommit")
      case True
      with assms sig fresh show ?thesis by (simp add: checkCertificateMessage_def)
    next
      case code: False
      show ?thesis
      proof (cases "DecodeSubject e m")
        case None
        with assms sig fresh code show ?thesis
          by (simp add: checkCertificateMessage_def split: if_splits)
      next
        case (Some s)
        show ?thesis
        proof (cases "vSequence (View s)")
          case None
          with assms sig fresh code Some show ?thesis
            by (simp add: checkCertificateMessage_def badSequence_def)
        next
          case (Some sq)
          with assms sig fresh code \<open>DecodeSubject e m = Some s\<close> show ?thesis
            by (cases view)
               (simp_all add: checkCertificateMessage_def badSequence_def otherView_def
                  badDigest_def split: if_splits)
        qed
      qed
    qed
  qed
qed

lemma sameViews_tail: "\<not> sameViews e rest \<Longrightarrow> \<not> sameViews e (m # rest)"
proof
  assume n: "\<not> sameViews e rest" and a: "sameViews e (m # rest)"
  have "sameViews e rest"
    unfolding sameViews_def
  proof (intro ballI)
    fix x y assume "x \<in> set rest" "y \<in> set rest"
    then have "x \<in> set (m # rest)" "y \<in> set (m # rest)" by simp_all
    with a show "map_option View (DecodeSubject e x) = map_option View (DecodeSubject e y)"
      unfolding sameViews_def by blast
  qed
  with n show False by simp
qed

lemma sameViews_other:
  assumes "map_option View (DecodeSubject e m) = Some v" and "x \<in> set rest"
    and "otherView e (Some v) x"
  shows "\<not> sameViews e (m # rest)"
proof
  assume a: "sameViews e (m # rest)"
  have "m \<in> set (m # rest)" "x \<in> set (m # rest)" using assms(2) by simp_all
  with a have "map_option View (DecodeSubject e m) = map_option View (DecodeSubject e x)"
    unfolding sameViews_def by blast
  with assms(1,3) show False
    by (cases "DecodeSubject e x") (simp_all add: otherView_def)
qed

lemma cause_simps:
  "cause e seq d seen view ms errInvalidMessage = (\<exists>m\<in>set ms. \<not> ValidSignature e m)"
  "cause e seq d seen view ms errInvalidPreparedCertificateDuplicate
     = (\<not> distinct (map Address ms) \<or> (\<exists>m\<in>set ms. Address m \<in> set seen))"
  "cause e seq d seen view ms errInvalidPreparedCertificateMsgCode
     = (\<exists>m\<in>set ms. Code m \<noteq> MsgPrepare \<and> Code m \<noteq> MsgCommit)"
  "cause e seq d seen view ms errFailedDecodePrepare = (\<exists>m\<in>set ms. DecodeSubject e m = None)"
  "cause e seq d seen view ms errFailedDecodeCommit = (\<exists>m\<in>set ms. DecodeSubject e m = None)"
  "cause e seq d seen view ms errInvalidPreparedCertificateMsgView
     = ((\<exists>m\<in>set ms. badSequence e seq m) \<or> \<not> sameViews e ms
        \<or> (\<exists>m\<in>set ms. otherView e view m))"
  "cause e seq d seen view ms errInvalidPreparedCertificateDigestMismatch
     = (\<exists>m\<in>set ms. badDigest e d m)"
  "cause e seq d seen view ms errOldMessage = False"
  "cause e seq d seen view ms errFutureMessage = False"
  "cause e seq d seen view ms errInconsistentSubject = False"
  "cause e seq d seen view ms errInvalidPreparedCertificateNumMsgs = False"
  "cause e seq d seen view ms (errOther s) = False"
  by (simp_all add: cause_def)

lemma cause_head:
  assumes "checkCertificateMessage e seq d seen view m = Inl err"
  shows "cause e seq d seen view (m # rest) err"
proof -
  have m: "m \<in> set (m # rest)" by simp
  from check_Inl_cases [OF assms] show ?thesis
  proof (elim disjE conjE)
    assume "err = errInvalidMessage" "\<not> ValidSignature e m"
    then show ?thesis by (simp add: cause_simps)
  next
    assume "err = errInvalidPreparedCertificateDuplicate" "Address m \<in> set seen"
    then show ?thesis by (simp add: cause_simps)
  next
    assume "err = errInvalidPreparedCertificateMsgCode" "Code m \<noteq> MsgPrepare"
      "Code m \<noteq> MsgCommit"
    then show ?thesis by (simp add: cause_simps)
  next
    assume "err = errFailedDecodePrepare" "DecodeSubject e m = None"
    then show ?thesis by (simp add: cause_simps)
  next
    assume "err = errFailedDecodeCommit" "DecodeSubject e m = None"
    then show ?thesis by (simp add: cause_simps)
  next
    assume "err = errInvalidPreparedCertificateMsgView" "badSequence e seq m"
    then show ?thesis by (simp add: cause_simps)
  next
    assume "err = errInvalidPreparedCertificateMsgView" "otherView e view m"
    then show ?thesis by (simp add: cause_simps)
  next
    assume "err = errInvalidPreparedCertificateDigestMismatch" "badDigest e d m"
    then show ?thesis by (simp add: cause_simps)
  qed
qed

lemma cause_tail:
  assumes v: "map_option View (DecodeSubject e m) = Some v"
    and c: "cause e seq d (Address m # seen) (Some v) rest err"
  shows "cause e seq d seen view (m # rest) err"
proof (cases err)
  case errInvalidPreparedCertificateMsgView
  with c have "(\<exists>x\<in>set rest. badSequence e seq x) \<or> \<not> sameViews e rest
               \<or> (\<exists>x\<in>set rest. otherView e (Some v) x)"
    by (simp add: cause_simps)
  then have "(\<exists>x\<in>set (m # rest). badSequence e seq x) \<or> \<not> sameViews e (m # rest)"
  proof (elim disjE bexE)
    fix x assume "x \<in> set rest" "badSequence e seq x"
    then have "\<exists>x\<in>set (m # rest). badSequence e seq x" by auto
    then show ?thesis ..
  next
    assume "\<not> sameViews e rest"
    then have "\<not> sameViews e (m # rest)" by (rule sameViews_tail)
    then show ?thesis ..
  next
    fix x assume "x \<in> set rest" "otherView e (Some v) x"
    with v have "\<not> sameViews e (m # rest)" by (rule sameViews_other)
    then show ?thesis ..
  qed
  then show ?thesis
    unfolding errInvalidPreparedCertificateMsgView cause_simps by blast
next
  case errInvalidPreparedCertificateDuplicate
  with c have "\<not> distinct (map Address rest)
               \<or> (\<exists>x\<in>set rest. Address x \<in> set (Address m # seen))"
    by (simp add: cause_simps)
  then have "\<not> distinct (map Address (m # rest)) \<or> (\<exists>x\<in>set (m # rest). Address x \<in> set seen)"
  proof (elim disjE bexE)
    assume "\<not> distinct (map Address rest)"
    then show ?thesis by simp
  next
    fix x assume x: "x \<in> set rest" "Address x \<in> set (Address m # seen)"
    show ?thesis
    proof (cases "Address x = Address m")
      case True
      with x(1) have "Address m \<in> set (map Address rest)"
        by (metis imageI list.set_map)
      then show ?thesis by simp
    next
      case False
      with x have "\<exists>x\<in>set (m # rest). Address x \<in> set seen" by auto
      then show ?thesis ..
    qed
  qed
  then show ?thesis
    unfolding errInvalidPreparedCertificateDuplicate cause_simps .
next
  case errInvalidMessage
  with c show ?thesis by (simp add: cause_simps)
next
  case errInvalidPreparedCertificateMsgCode
  with c show ?thesis by (simp add: cause_simps)
next
  case errFailedDecodePrepare
  with c show ?thesis by (simp add: cause_simps)
next
  case errFailedDecodeCommit
  with c show ?thesis by (simp add: cause_simps)
next
  case errInvalidPreparedCertificateDigestMismatch
  with c show ?thesis by (simp add: cause_simps)
next
  case errOldMessage
  with c show ?thesis by (simp add: cause_simps)
next
  case errFutureMessage
  with c show ?thesis by (simp add: cause_simps)
next
  case errInconsistentSubject
  with c show ?thesis by (simp add: cause_simps)
next
  case errInvalidPreparedCertificateNumMsgs
  with c show ?thesis by (simp add: cause_simps)
next
  case (errOther s)
  with c show ?thesis by (simp add: cause_simps)
qed

lemma loop_sound:
  "verifyCertificateMessages e seq d seen view ms = Some err \<Longrightarrow> cause e seq d seen view ms err"
proof (induction ms arbitrary: seen view)
  case Nil
  then show ?case by simp
next
  case (Cons m rest)
  show ?case
  proof (cases "checkCertificateMessage e seq d seen view m")
    case (Inl err')
    with Cons.prems have "err' = err" by simp
    with Inl show ?thesis by (simp add: cause_head)
  next
    case (Inr v)
    with Cons.prems
    have "verifyCertificateMessages e seq d (Address m # seen) (Some v) rest = Some err"
      by simp
    then have "cause e seq d (Address m # seen) (Some v) rest err"
      by (rule Cons.IH)
    moreover from Inr have "map_option View (DecodeSubject e m) = Some v"
      by (simp add: check_Inr_iff)
    ultimately show ?thesis by (rule cause_tail [rotated])
  qed
qed

lemma sameViews_Cons:
  assumes "map_option View (DecodeSubject e m) = Some v"
  shows "sameViews e (m # rest)
     = (sameViews e rest \<and> (\<forall>m'\<in>set rest. map_option View (DecodeSubject e m') = Some v))"
proof
  assume a: "sameViews e (m # rest)"
  have "sameViews e rest"
    using a sameViews_tail [of e rest m] by blast
  moreover have "\<forall>m'\<in>set rest. map_option View (DecodeSubject e m') = Some v"
  proof
    fix m' assume "m' \<in> set rest"
    then have "m \<in> set (m # rest)" "m' \<in> set (m # rest)" by simp_all
    with a have "map_option View (DecodeSubject e m) = map_option View (DecodeSubject e m')"
      unfolding sameViews_def by blast
    with assms show "map_option View (DecodeSubject e m') = Some v" by metis
  qed
  ultimately show "sameViews e rest
      \<and> (\<forall>m'\<in>set rest. map_option View (DecodeSubject e m') = Some v)" ..
next
  assume a: "sameViews e rest
      \<and> (\<forall>m'\<in>set rest. map_option View (DecodeSubject e m') = Some v)"
  have all: "\<And>x. x \<in> set (m # rest) \<Longrightarrow> map_option View (DecodeSubject e x) = Some v"
  proof -
    fix x assume "x \<in> set (m # rest)"
    then have "x = m \<or> x \<in> set rest" by simp
    then show "map_option View (DecodeSubject e x) = Some v"
      using a assms by blast
  qed
  show "sameViews e (m # rest)"
    unfolding sameViews_def
  proof (intro ballI)
    fix x y assume x: "x \<in> set (m # rest)" and y: "y \<in> set (m # rest)"
    have "map_option View (DecodeSubject e x) = Some v" using x by (rule all)
    moreover have "map_option View (DecodeSubject e y) = Some v" using y by (rule all)
    ultimately show "map_option View (DecodeSubject e x) = map_option View (DecodeSubject e y)"
      by (rule trans [OF _ sym])
  qed
qed

lemma valid_has_view:
  "validCertificateMessage e seq d m \<Longrightarrow> \<exists>v. map_option View (DecodeSubject e m) = Some v"
  by (cases "DecodeSubject e m") (simp_all add: validCertificateMessage_def)

lemma loop_None_iff:
  "verifyCertificateMessages e seq d seen view ms = None \<longleftrightarrow>
     (\<forall>m\<in>set ms. validCertificateMessage e seq d m)
     \<and> distinct (map Address ms) \<and> (\<forall>m\<in>set ms. Address m \<notin> set seen)
     \<and> sameViews e ms
     \<and> (\<forall>v. view = Some v \<longrightarrow> (\<forall>m\<in>set ms. map_option View (DecodeSubject e m) = Some v))"
proof (induction ms arbitrary: seen view)
  case Nil
  then show ?case by (simp add: sameViews_def)
next
  case (Cons m rest)
  show ?case
  proof (cases "checkCertificateMessage e seq d seen view m")
    case (Inl err')
    then have l: "verifyCertificateMessages e seq d seen view (m # rest) \<noteq> None"
      by simp
    have "\<not> (validCertificateMessage e seq d m \<and> Address m \<notin> set seen
             \<and> (\<forall>v. view = Some v \<longrightarrow> map_option View (DecodeSubject e m) = Some v))"
    proof
      assume a: "validCertificateMessage e seq d m \<and> Address m \<notin> set seen
             \<and> (\<forall>v. view = Some v \<longrightarrow> map_option View (DecodeSubject e m) = Some v)"
      then obtain v where v: "map_option View (DecodeSubject e m) = Some v"
        using valid_has_view by blast
      with a have "view = None \<or> view = Some v"
        by (cases view) simp_all
      with a v have "checkCertificateMessage e seq d seen view m = Inr v"
        by (simp add: check_Inr_iff)
      with Inl show False by simp
    qed
    then have "\<not> ((\<forall>m\<in>set (m # rest). validCertificateMessage e seq d m)
       \<and> distinct (map Address (m # rest)) \<and> (\<forall>m\<in>set (m # rest). Address m \<notin> set seen)
       \<and> sameViews e (m # rest)
       \<and> (\<forall>v. view = Some v
             \<longrightarrow> (\<forall>m\<in>set (m # rest). map_option View (DecodeSubject e m) = Some v)))"
      by simp blast
    with l show ?thesis by blast
  next
    case (Inr v)
    then have m: "validCertificateMessage e seq d m" "Address m \<notin> set seen"
      "map_option View (DecodeSubject e m) = Some v" "view = None \<or> view = Some v"
      by (simp_all add: check_Inr_iff)
    let ?A = "\<forall>x\<in>set rest. validCertificateMessage e seq d x"
    let ?B = "distinct (map Address rest)"
    let ?C = "\<forall>x\<in>set rest. Address x \<notin> set seen"
    let ?C' = "\<forall>x\<in>set rest. Address x \<noteq> Address m"
    let ?D = "sameViews e rest"
    let ?E = "\<forall>x\<in>set rest. map_option View (DecodeSubject e x) = Some v"
    have step: "verifyCertificateMessages e seq d seen view (m # rest)
          = verifyCertificateMessages e seq d (Address m # seen) (Some v) rest"
      using Inr by simp
    have "(\<forall>x\<in>set rest. Address x \<notin> set (Address m # seen)) = (?C \<and> ?C')"
      by simp blast
    moreover have "(\<forall>v'. Some v = Some v'
                      \<longrightarrow> (\<forall>x\<in>set rest. map_option View (DecodeSubject e x) = Some v')) = ?E"
      by simp
    ultimately
    have ih: "(verifyCertificateMessages e seq d (Address m # seen) (Some v) rest = None)
              = (?A \<and> ?B \<and> ?C \<and> ?C' \<and> ?D \<and> ?E)"
      unfolding Cons.IH by (simp only:) blast
    have g1: "(\<forall>x\<in>set (m # rest). validCertificateMessage e seq d x) = ?A"
      using m(1) by simp
    have "(Address m \<notin> set (map Address rest)) = ?C'"
    proof
      assume a: "Address m \<notin> set (map Address rest)"
      show ?C'
      proof
        fix x assume "x \<in> set rest"
        then have "Address x \<in> set (map Address rest)" by (metis imageI list.set_map)
        with a show "Address x \<noteq> Address m" by metis
      qed
    next
      assume a: ?C'
      show "Address m \<notin> set (map Address rest)"
      proof
        assume "Address m \<in> set (map Address rest)"
        then obtain x where "x \<in> set rest" "Address x = Address m"
          by (metis (no_types) imageE list.set_map)
        with a show False by blast
      qed
    qed
    then have g2: "distinct (map Address (m # rest)) = (?C' \<and> ?B)"
      by simp
    have g3: "(\<forall>x\<in>set (m # rest). Address x \<notin> set seen) = ?C"
      using m(2) by simp
    have g4: "sameViews e (m # rest) = (?D \<and> ?E)"
      by (rule sameViews_Cons [OF m(3)])
    have g5: "?E \<Longrightarrow> (\<forall>v'. view = Some v'
             \<longrightarrow> (\<forall>x\<in>set (m # rest). map_option View (DecodeSubject e x) = Some v'))"
    proof (intro allI impI ballI)
      fix v' x
      assume E: ?E and v': "view = Some v'" and x: "x \<in> set (m # rest)"
      from v' m(4) have "v' = v" by simp
      with E x m(3) show "map_option View (DecodeSubject e x) = Some v'"
        by (cases "x = m") simp_all
    qed
    show ?thesis
      unfolding step ih g1 g2 g3 g4 using g5 by blast
  qed
qed

lemma otherView_None: "otherView e None m = False"
  by (simp add: otherView_def)

lemma cause_violates:
  assumes "cause e (sequence cur) (Hash (pcProposal cert)) [] None
             (PrepareOrCommitMessages cert) err"
  shows "violates e vs cur cert err"
proof (cases err)
  case errInvalidPreparedCertificateMsgView
  with assms show ?thesis
    by (simp add: cause_simps violates_def otherView_None)
next
  case errInvalidPreparedCertificateDuplicate
  with assms show ?thesis by (simp add: cause_simps violates_def)
next
  case errInvalidMessage
  with assms show ?thesis by (simp add: cause_simps violates_def)
next
  case errInvalidPreparedCertificateMsgCode
  with assms show ?thesis by (simp add: cause_simps violates_def)
next
  case errFailedDecodePrepare
  with assms show ?thesis by (simp add: cause_simps violates_def)
next
  case errFailedDecodeCommit
  with assms show ?thesis by (simp add: cause_simps violates_def)
next
  case errInvalidPreparedCertificateDigestMismatch
  with assms show ?thesis by (simp add: cause_simps violates_def)
next
  case errOldMessage
  with assms show ?thesis by (simp add: cause_simps)
next
  case errFutureMessage
  with assms show ?thesis by (simp add: cause_simps)
next
  case errInconsistentSubject
  with assms show ?thesis by (simp add: cause_simps)
next
  case errInvalidPreparedCertificateNumMsgs
  with assms show ?thesis by (simp add: cause_simps)
next
  case (errOther s)
  with assms show ?thesis by (simp add: cause_simps)
qed

lemma verifyPreparedCertificate_run:
  assumes "current c = Some cur" and "valSet c = Some vs"
  shows "verifyPreparedCertificate e c cert =
           (if int (length (PrepareOrCommitMessages cert)) \<noteq> MinQuorumSize e vs
            then Inr (Some errInvalidPreparedCertificateNumMsgs)
            else Inr (verifyCertificateMessages e (sequence cur) (Hash (pcProposal cert)) []
                        None (PrepareOrCommitMessages cert)))"
  using assms by (simp add: verifyPreparedCertificate_def)

lemma verifyPreparedCertificate_accepts:
  assumes "current c = Some cur" and "valSet c = Some vs"
  shows "(verifyPreparedCertificate e c cert = Inr None) = validPreparedCertificate e vs cur cert"
proof (cases "int (length (PrepareOrCommitMessages cert)) = MinQuorumSize e vs")
  case True
  then show ?thesis
    unfolding verifyPreparedCertificate_run [OF assms] validPreparedCertificate_def
    by (simp add: loop_None_iff) blast
next
  case False
  then show ?thesis
    unfolding verifyPreparedCertificate_run [OF assms] validPreparedCertificate_def
    by simp
qed

lemma verifyPreparedCertificate_error:
  assumes "current c = Some cur" and "valSet c = Some vs"
    and "verifyPreparedCertificate e c cert = Inr (Some err)"
  shows "violates e vs cur cert err"
proof (cases "int (length (PrepareOrCommitMessages cert)) = MinQuorumSize e vs")
  case True
  with assms(3) have "verifyCertificateMessages e (sequence cur) (Hash (pcProposal cert)) []
                        None (PrepareOrCommitMessages cert) = Some err"
    unfolding verifyPreparedCertificate_run [OF assms(1,2)] by simp
  then show ?thesis by (intro cause_violates loop_sound)
next
  case False
  with assms(3) have "err = errInvalidPreparedCertificateNumMsgs"
    unfolding verifyPreparedCertificate_run [OF assms(1,2)] by simp
  with False show ?thesis by (simp add: violates_def)
qed

lemma loop_first:
  "verifyCertificateMessages e seq d seen view ms = Some err \<Longrightarrow>
     \<exists>pre m rest. ms = pre @ m # rest
       \<and> verifyCertificateMessages e seq d seen view pre = None
       \<and> checkCertificateMessage e seq d (rev (map Address pre) @ seen)
            (if pre = [] then view else map_option View (DecodeSubject e (last pre))) m
          = Inl err"
proof (induction ms arbitrary: seen view)
  case Nil
  then show ?case by simp
next
  case (Cons x xs)
  show ?case
  proof (cases "checkCertificateMessage e seq d seen view x")
    case (Inl err')
    with Cons.prems have "err' = err" by simp
    with Inl have "x # xs = [] @ x # xs
       \<and> verifyCertificateMessages e seq d seen view [] = None
       \<and> checkCertificateMessage e seq d (rev (map Address []) @ seen)
            (if [] = ([]::message list) then view
             else map_option View (DecodeSubject e (last []))) x
          = Inl err"
      by simp
    then show ?thesis by blast
  next
    case (Inr v)
    then have vx: "map_option View (DecodeSubject e x) = Some v"
      by (simp add: check_Inr_iff)
    from Inr Cons.prems
    have "verifyCertificateMessages e seq d (Address x # seen) (Some v) xs = Some err"
      by simp
    from Cons.IH [OF this] obtain pre m rest where
      p: "xs = pre @ m # rest"
         "verifyCertificateMessages e seq d (Address x # seen) (Some v) pre = None"
         "checkCertificateMessage e seq d (rev (map Address pre) @ Address x # seen)
            (if pre = [] then Some v else map_option View (DecodeSubject e (last pre))) m
          = Inl err"
      by blast
    have 1: "x # xs = (x # pre) @ m # rest" using p(1) by simp
    have 2: "verifyCertificateMessages e seq d seen view (x # pre) = None"
      using Inr p(2) by simp
    have 3: "checkCertificateMessage e seq d (rev (map Address (x # pre)) @ seen)
            (if x # pre = [] then view
             else map_option View (DecodeSubject e (last (x # pre)))) m
          = Inl err"
    proof (cases "pre = []")
      case True
      with p(3) show ?thesis unfolding True by (simp only: vx [symmetric]) simp
    next
      case False
      with p(3) show ?thesis by simp
    qed
    from 1 2 3 show ?thesis by blast
  qed
qed

lemma verifyPreparedCertificate_first:
  assumes "current c = Some cur" and "valSet c = Some vs"
    and "verifyPreparedCertificate e c cert = Inr (Some err)"
    and "int (length (PrepareOrCommitMessages cert)) = MinQuorumSize e vs"
  shows "\<exists>pre m rest. PrepareOrCommitMessages cert = pre @ m # rest
       \<and> (\<forall>x\<in>set pre. validCertificateMessage e (sequence cur) (Hash (pcProposal cert)) x)
       \<and> sameViews e pre \<and> distinct (map Address pre)
       \<and> checkCertificateMessage e (sequence cur) (Hash (pcProposal cert))
            (rev (map Address pre))
            (if pre = [] then None else map_option View (DecodeSubject e (last pre))) m
          = Inl err"
proof -
  from assms(3,4)
  have "verifyCertificateMessages e (sequence cur) (Hash (pcProposal cert)) [] None
          (PrepareOrCommitMessages cert) = Some err"
    unfolding verifyPreparedCertificate_run [OF assms(1,2)] by simp
  from loop_first [OF this] obtain pre m rest where
    p: "PrepareOrCommitMessages cert = pre @ m # rest"
       "verifyCertificateMessages e (sequence cur) (Hash (pcProposal cert)) [] None pre = None"
       "checkCertificateMessage e (sequence cur) (Hash (pcProposal cert))
            (rev (map Address pre) @ [])
            (if pre = [] then None else map_option View (DecodeSubject e (last pre))) m
          = Inl err"
    by blast
  from p(2) have v: "(\<forall>x\<in>set pre. validCertificateMessage e (sequence cur) (Hash (pcProposal cert)) x)"
    "sameViews e pre" "distinct (map Address pre)"
    unfolding loop_None_iff by blast+
  from p(3) have "checkCertificateMessage e (sequence cur) (Hash (pcProposal cert))
            (rev (map Address pre))
            (if pre = [] then None else map_option View (DecodeSubject e (last pre))) m
          = Inl err" by simp
  with p(1) v show ?thesis by blast
qed

text \<open>The six certificates of \<^verbatim>\<open>TestVerifyPreparedCertificate\<close> and their results.\<close>

lemma verifyPreparedCertificate_tests:
  "verifyPreparedCertificate exampleEnv exampleCore (testCertificate 1) = Inr None"
  "verifyPreparedCertificate exampleEnv exampleCore
     ((testCertificate 1)\<lparr>PrepareOrCommitMessages :=
        [examplePrepare 1 1 0 11, examplePrepare 1 1 0 11, examplePrepare 3 1 0 11]\<rparr>)
   = Inr (Some errInvalidPreparedCertificateDuplicate)"
  "verifyPreparedCertificate exampleEnv exampleCore (testCertificate 10)
   = Inr (Some errInvalidPreparedCertificateMsgView)"
  "verifyPreparedCertificate exampleEnv exampleCore
     ((testCertificate 1)\<lparr>PrepareOrCommitMessages :=
        [(exampleRoundChange 1 [1])\<lparr>Signature := [1]\<rparr>, examplePrepare 2 1 0 11,
         examplePrepare 3 1 0 11]\<rparr>)
   = Inr (Some errInvalidPreparedCertificateMsgCode)"
  "verifyPreparedCertificate exampleEnv exampleCore
     \<lparr>pcProposal = preparedProposal,
      PrepareOrCommitMessages =
        [examplePrepare 1 1 0 11, examplePrepare 1 1 0 11, examplePrepare 3 1 0 11]\<rparr>
   = Inr (Some errInvalidPreparedCertificateDigestMismatch)"
  "verifyPreparedCertificate exampleEnv exampleCore emptyCertificate
   = Inr (Some errInvalidPreparedCertificateNumMsgs)"
  by code_simp+

section \<open>The round-change timer\<close>

text \<open>
  C7. The timer that \<^verbatim>\<open>newRoundChangeTimerForView\<close> starts for a view of round \<open>k\<close> lasts
  the request timeout plus \<open>b(k)\<close>, where \<open>b(0)\<close> is the block period and
  \<open>b(k) = 2^min(k,5)\<close> seconds for \<open>k > 0\<close>, at most 32 seconds and exactly 32 from round 5
  on; when it expires it sends a \<open>timeoutEvent\<close> with that view and leaves the core as it
  is. The round is one that \<^verbatim>\<open>Uint64\<close> keeps (below \<open>2^64\<close>) and the duration fits the
  signed 64 bits of a \<^verbatim>\<open>time.Duration\<close>.
\<close>

theorem roundChangeTimer_duration:
  assumes "Round v = int k" and "k < 2 ^ 64" and "roundTimeoutNanos (config c) k < 2 ^ 63"
  shows "(\<exists>t. roundChangeTimer (newRoundChangeTimerForView c v) = Some t
             \<and> sint (duration t) = int (roundTimeoutNanos (config c) k)
             \<and> \<not> stopped t
             \<and> expire c' t = (c', [SendEvent (timeoutEvent v)]))
         \<and> (0 < k \<longrightarrow> roundBackoffSeconds (config c) k \<le> 32)
         \<and> (5 \<le> k \<longrightarrow> roundBackoffSeconds (config c) k = 32)"
  using duration_value [OF assms(2,3)] assms(1) roundBackoffSeconds_cap [of k "config c"]
  by (simp add: newRoundChangeTimerForView_timer expire_def split del: if_split cong: if_cong)

theorem roundChangeTimer_duration_witness:
  "Round \<lparr>Sequence = 1, Round = 7\<rparr> = int 7 \<and> (7::nat) < 2 ^ 64
   \<and> roundTimeoutNanos (config exampleCore) 7 = 35000000000
   \<and> (\<exists>t. roundChangeTimer (newRoundChangeTimerForView exampleCore \<lparr>Sequence = 1, Round = 7\<rparr>)
             = Some t
           \<and> sint (duration t) = 35000000000
           \<and> \<not> stopped t
           \<and> expire exampleCore t
               = (exampleCore, [SendEvent (timeoutEvent \<lparr>Sequence = 1, Round = 7\<rparr>)]))
   \<and> roundBackoffSeconds (config exampleCore) 7 = 32"
proof -
  have n: "roundTimeoutNanos (config exampleCore) 7 = 35000000000"
    by (simp add: roundTimeoutNanos_def roundBackoffSeconds_def exampleCore_def
        exampleConfig_def)
  have "roundTimeoutNanos (config exampleCore) 7 < 2 ^ 63"
    by (simp add: n)
  from roundChangeTimer_duration [of "\<lparr>Sequence = 1, Round = 7\<rparr>" 7 exampleCore exampleCore,
      OF _ _ this]
  show ?thesis by (simp add: n)
qed

section \<open>Adding to the round change set\<close>

text \<open>
  C8. \<open>Add\<close> is idempotent: adding a message twice gives the set that adding it once
  gives, and adding a message of the same sender for the same round again leaves the size
  of that round's messages unchanged. The sender's latest round after \<open>Add\<close> is the
  maximum of its former latest round and the round added. In a set where each sender has
  its only message at its latest round (as in a new set), this stays so after \<open>Add\<close>;
  adding a message of a higher round stores it at that round and leaves the sender in no
  other round's messages.
\<close>

theorem Add_idempotent_highest:
  "Add (Add rcs r msg) r msg = Add rcs r msg
   \<and> (Address msg' = Address msg \<longrightarrow>
        Size (messagesAt (Add (Add rcs r msg) r msg') r) = Size (messagesAt (Add rcs r msg) r))
   \<and> map_of (latestRoundForVal (Add rcs r msg)) (Address msg)
       = Some (case map_of (latestRoundForVal rcs) (Address msg) of
                 None \<Rightarrow> r
               | Some p \<Rightarrow> max p r)
   \<and> (oneMessagePerSender rcs \<longrightarrow>
        oneMessagePerSender (Add rcs r msg)
        \<and> (\<forall>p. map_of (latestRoundForVal rcs) (Address msg) = Some p \<and> p < r \<longrightarrow>
              map_of (messagesAt (Add rcs r msg) r) (Address msg) = Some msg
              \<and> (\<forall>r'. r' \<noteq> r \<longrightarrow> Address msg \<notin> sendersOf (messagesAt (Add rcs r msg) r'))))
   \<and> oneMessagePerSender (newRoundChangeSet vs)"
proof -
  have higher: "map_of (messagesAt (Add rcs r msg) r) (Address msg) = Some msg
              \<and> (\<forall>r'. r' \<noteq> r \<longrightarrow> Address msg \<notin> sendersOf (messagesAt (Add rcs r msg) r'))"
    if inv: "oneMessagePerSender rcs"
      and p: "map_of (latestRoundForVal rcs) (Address msg) = Some p" "p < r" for p
  proof -
    have l: "map_of (latestRoundForVal (Add rcs r msg)) (Address msg) = Some r"
      using p by (simp add: latest_Add max_def)
    have "oneMessagePerSender (Add rcs r msg)"
      using inv by (rule oneMessagePerSender_Add)
    then have "\<And>r'. (Address msg \<in> sendersOf (messagesAt (Add rcs r msg) r')) = (r = r')"
      by (simp add: oneMessagePerSender_def l)
    moreover have "map_of (messagesAt (Add rcs r msg) r) (Address msg) = Some msg"
      by (simp add: messagesAt_Add_at [OF l] map_of_msgSetAdd)
    ultimately show ?thesis by auto
  qed
  show ?thesis
    using higher
    by (simp add: Add_idempotent Add_same_sender_size latest_Add oneMessagePerSender_Add
        oneMessagePerSender_new)
qed

lemma atOwnRounds_one: "oneMessagePerSender atOwnRounds"
  unfolding atOwnRounds_def
  by (intro oneMessagePerSender_Add oneMessagePerSender_new)

lemma Add_tests:
  "map (\<lambda>rcs. Size (messagesAt rcs 1))
     [Add (newRoundChangeSet exampleValSet) 1 (testRoundChange 1),
      Add (Add (newRoundChangeSet exampleValSet) 1 (testRoundChange 1)) 1 (testRoundChange 2),
      allAtRoundOne,
      Add allAtRoundOne 1 (testRoundChange 1),
      Add (Add allAtRoundOne 1 (testRoundChange 1)) 1 (testRoundChange 2)]
   = [1, 2, 4, 4, 4]"
  "map (\<lambda>r. Size (messagesAt atOwnRounds r)) [0, 1, 2, 3] = [1, 1, 1, 1]"
  "latestRoundForVal atOwnRounds = [(1, 0), (2, 1), (3, 2), (4, 3)]"
  by (simp_all add: allAtRoundOne_def atOwnRounds_def Add_def newRoundChangeSet_def
      testRoundChange_def Let_def messagesAt_def msgSetAdd_def msgSetRemove_def Size_def)

theorem Add_idempotent_highest_witness:
  "oneMessagePerSender atOwnRounds
   \<and> map_of (latestRoundForVal atOwnRounds) (Address (testRoundChange 1)) = Some 0
   \<and> map_of (latestRoundForVal (Add atOwnRounds 5 (testRoundChange 1))) 1 = Some 5
   \<and> map_of (messagesAt (Add atOwnRounds 5 (testRoundChange 1)) 5) 1 = Some (testRoundChange 1)
   \<and> 1 \<notin> sendersOf (messagesAt (Add atOwnRounds 5 (testRoundChange 1)) 0)
   \<and> Size (messagesAt (Add (Add atOwnRounds 5 (testRoundChange 1)) 5 (testRoundChange 1)) 5)
       = Size (messagesAt (Add atOwnRounds 5 (testRoundChange 1)) 5)"
proof -
  have a: "Address (testRoundChange 1) = 1"
    by (simp add: testRoundChange_def)
  have l: "map_of (latestRoundForVal atOwnRounds) (Address (testRoundChange 1)) = Some 0"
    by (simp add: Add_tests(3) a)
  from Add_idempotent_highest [of atOwnRounds 5 "testRoundChange 1" "testRoundChange 1"]
    atOwnRounds_one l
  show ?thesis by (simp add: a)
qed

section \<open>The highest round a threshold of senders has reached\<close>

text \<open>
  C9. \<open>MaxRound\<close> does not increase when the threshold increases (nil counting as
  the least result). \<open>MaxRound rcs t\<close> is \<open>R\<close> exactly when \<open>R\<close> is the largest latest
  round of a sender such that at least \<open>t\<close> distinct senders have their latest round at
  \<open>R\<close> or above; for a threshold of at least 1 this is the largest of all rounds with at
  least \<open>t\<close> such senders (for a threshold below 1 every round has that many, and there
  is no largest). It is nil for every threshold above the number of distinct senders.
  \<open>sendersAtLeast rcs R\<close> lists the senders with latest round at least \<open>R\<close>, each once.
\<close>

theorem MaxRound_spec:
  "(t1 \<le> t2 \<longrightarrow>
      (case MaxRound rcs t2 of
         None \<Rightarrow> True
       | Some R2 \<Rightarrow> (case MaxRound rcs t1 of None \<Rightarrow> False | Some R1 \<Rightarrow> R2 \<le> R1)))
   \<and> (MaxRound rcs t = Some R \<longleftrightarrow>
        R \<in> ran (map_of (latestRoundForVal rcs))
        \<and> t \<le> int (length (sendersAtLeast rcs R))
        \<and> (\<forall>R'\<in>ran (map_of (latestRoundForVal rcs)).
              t \<le> int (length (sendersAtLeast rcs R')) \<longrightarrow> R' \<le> R))
   \<and> (1 \<le> t \<longrightarrow>
        (MaxRound rcs t = Some R \<longleftrightarrow>
           t \<le> int (length (sendersAtLeast rcs R))
           \<and> (\<forall>R'. t \<le> int (length (sendersAtLeast rcs R')) \<longrightarrow> R' \<le> R)))
   \<and> (int (length (senders rcs)) < t \<longrightarrow> MaxRound rcs t = None)
   \<and> distinct (senders rcs)
   \<and> set (senders rcs) = dom (map_of (latestRoundForVal rcs))
   \<and> distinct (sendersAtLeast rcs R)
   \<and> set (sendersAtLeast rcs R)
       = {a. \<exists>r. map_of (latestRoundForVal rcs) a = Some r \<and> R \<le> r}"
proof -
  have 1: "t1 \<le> t2 \<longrightarrow>
      (case MaxRound rcs t2 of
         None \<Rightarrow> True
       | Some R2 \<Rightarrow> (case MaxRound rcs t1 of None \<Rightarrow> False | Some R1 \<Rightarrow> R2 \<le> R1))"
  proof
    assume le: "t1 \<le> t2"
    show "case MaxRound rcs t2 of
         None \<Rightarrow> True
       | Some R2 \<Rightarrow> (case MaxRound rcs t1 of None \<Rightarrow> False | Some R1 \<Rightarrow> R2 \<le> R1)"
    proof (cases "MaxRound rcs t2")
      case None
      then show ?thesis by simp
    next
      case (Some R2)
      from MaxRound_antitone [OF le Some] Some show ?thesis by auto
    qed
  qed
  have 2: "MaxRound rcs t = Some R \<longleftrightarrow>
        R \<in> ran (map_of (latestRoundForVal rcs))
        \<and> t \<le> int (length (sendersAtLeast rcs R))
        \<and> (\<forall>R'\<in>ran (map_of (latestRoundForVal rcs)).
              t \<le> int (length (sendersAtLeast rcs R')) \<longrightarrow> R' \<le> R)"
    by (auto simp: MaxRound_Some_iff reachedRounds_def)
  show ?thesis
    using 1 2 MaxRound_largest [of t rcs R] MaxRound_nil [of rcs t]
    by (simp add: distinct_senders set_senders distinct_sendersAtLeast set_sendersAtLeast)
qed

lemma atOwnRounds_latest:
  "latestRoundForVal atOwnRounds = [(1, 0), (2, 1), (3, 2), (4, 3)]"
  by (simp add: atOwnRounds_def Add_def newRoundChangeSet_def testRoundChange_def Let_def)

lemma allAtRoundOne_latest:
  "latestRoundForVal allAtRoundOne = [(1, 1), (2, 1), (3, 1), (4, 1)]"
  by (simp add: allAtRoundOne_def Add_def newRoundChangeSet_def testRoundChange_def Let_def)

lemma MaxRound_tests:
  "map (MaxRound allAtRoundOne) [0, 1, 2, 3, 4, 5, 6, 7, 8, 9]
     = [Some 1, Some 1, Some 1, Some 1, Some 1, None, None, None, None, None]"
  "map (MaxRound atOwnRounds) [1, 2, 3] = [Some 3, Some 2, Some 1]"
  by (simp_all add: MaxRound_def Let_def senders_def sendersAtLeast_def List.map_filter_simps
      atOwnRounds_latest allAtRoundOne_latest)

theorem MaxRound_spec_witness:
  "MaxRound atOwnRounds 1 = Some 3 \<and> MaxRound atOwnRounds 3 = Some 1
   \<and> MaxRound atOwnRounds 5 = None
   \<and> length (sendersAtLeast atOwnRounds 1) = 3 \<and> length (senders atOwnRounds) = 4
   \<and> (\<exists>R1 R2. MaxRound atOwnRounds 1 = Some R1 \<and> MaxRound atOwnRounds 3 = Some R2 \<and> R2 \<le> R1)
   \<and> 3 \<le> int (length (sendersAtLeast atOwnRounds 1))
   \<and> \<not> 3 \<le> int (length (sendersAtLeast atOwnRounds 2))"
proof -
  have m: "MaxRound atOwnRounds 1 = Some 3" "MaxRound atOwnRounds 3 = Some 1"
    using MaxRound_tests(2) by simp_all
  have n: "length (sendersAtLeast atOwnRounds 1) = 3" "length (senders atOwnRounds) = 4"
    by (simp_all add: senders_def sendersAtLeast_def atOwnRounds_latest)
  note t = MaxRound_spec [of 1 3 atOwnRounds 3 1]
  note u = MaxRound_spec [of 1 3 atOwnRounds 5 1]
  have 5: "MaxRound atOwnRounds 5 = None"
    using u n by simp
  have l: "3 \<le> int (length (sendersAtLeast atOwnRounds 1))
       \<and> (\<forall>R'. 3 \<le> int (length (sendersAtLeast atOwnRounds R')) \<longrightarrow> R' \<le> 1)"
    using t m by simp
  from l have "3 \<le> int (length (sendersAtLeast atOwnRounds 2)) \<longrightarrow> (2::nat) \<le> 1"
    by blast
  then have k: "\<not> 3 \<le> int (length (sendersAtLeast atOwnRounds 2))"
    by simp
  show ?thesis using m n 5 l k by simp
qed

section \<open>Committing\<close>

text \<open>
  C10. \<^verbatim>\<open>commit()\<close> on a core with a round state. When the current proposal is nil the
  state is set to \<open>StateCommitted\<close> and the backend is not called. When there is a
  proposal, the committed seals are collected and aggregated without a panic and
  \<^verbatim>\<open>Backend.Commit\<close> returns an error, the call returns normally: it has called
  \<^verbatim>\<open>sendNextRoundChange\<close> right after the failed \<^verbatim>\<open>Backend.Commit\<close>, and the core
  differs from the one before only in its state, so the round state and its view are
  those of the same sequence.
\<close>

theorem commit_error_or_nil:
  assumes "current c = Some cur"
  shows "(Proposal_of cur = None \<longrightarrow>
            commit e c = Inr (c\<lparr>state := StateCommitted\<rparr>, [ProcessBacklog]))
       \<and> (\<forall>p bitmap publicKeys seals asig err.
            Proposal_of cur = Some p
            \<and> collectSeals e (Commits cur) (Values (Commits cur)) 0 [] []
                = Inr (bitmap, publicKeys, seals)
            \<and> AggregateSignatures e seals = Inr asig
            \<and> backend_Commit e p bitmap asig = Some err
            \<longrightarrow> commit e c =
                  Inr (c\<lparr>state := StateCommitted\<rparr>,
                       [ProcessBacklog, BackendCommit p bitmap asig, SendNextRoundChange]))"
  using assms by (simp add: commit_def setState_simps)

theorem commit_error_or_nil_witness:
  "current exampleCore = Some exampleRoundState \<and> Proposal_of exampleRoundState = None
   \<and> commit exampleEnv exampleCore = Inr (exampleCore\<lparr>state := StateCommitted\<rparr>, [ProcessBacklog])
   \<and> backend_Commit exampleEnv exampleProposal 7 [1, 0, 2, 0, 3, 0] = Some (errOther ''bad block'')
   \<and> commit exampleEnv committingCore =
       Inr (committingCore\<lparr>state := StateCommitted\<rparr>,
            [ProcessBacklog, BackendCommit exampleProposal 7 [1, 0, 2, 0, 3, 0],
             SendNextRoundChange])"
proof -
  let ?cur = "exampleRoundState
          \<lparr>preprepare := Some \<lparr>ppView = \<lparr>Sequence = 1, Round = 0\<rparr>,
                                ppProposal = exampleProposal,
                                ppRoundChangeCertificate = \<lparr>RoundChangeMessages = []\<rparr>\<rparr>,
           Commits := [(1, exampleCommit 1), (2, exampleCommit 2), (3, exampleCommit 3)]\<rparr>"
  have h1: "current exampleCore = Some exampleRoundState"
    by (simp add: exampleCore_def)
  have n: "Proposal_of exampleRoundState = None"
    by (simp add: Proposal_of_def exampleRoundState_def)
  have h2: "current committingCore = Some ?cur"
    by (simp add: committingCore_def exampleCore_def)
  have p: "Proposal_of ?cur = Some exampleProposal"
    by (simp add: Proposal_of_def)
  have s: "collectSeals exampleEnv (Commits ?cur) (Values (Commits ?cur)) 0 [] []
           = Inr (7, [[1], [2], [3]], [[1, 0], [2, 0], [3, 0]])"
    by (simp add: Values_def exampleEnv_def exampleCommit_def Let_def set_bit_eq_or)
  have a: "AggregateSignatures exampleEnv [[1, 0], [2, 0], [3, 0]] = Inr [1, 0, 2, 0, 3, 0]"
    by (simp add: exampleEnv_def)
  have b: "backend_Commit exampleEnv exampleProposal 7 [1, 0, 2, 0, 3, 0]
           = Some (errOther ''bad block'')"
    by (simp add: exampleEnv_def)
  have 1: "commit exampleEnv exampleCore
           = Inr (exampleCore\<lparr>state := StateCommitted\<rparr>, [ProcessBacklog])"
    using commit_error_or_nil [OF h1, of exampleEnv] n by simp
  have 2: "commit exampleEnv committingCore =
       Inr (committingCore\<lparr>state := StateCommitted\<rparr>,
            [ProcessBacklog, BackendCommit exampleProposal 7 [1, 0, 2, 0, 3, 0],
             SendNextRoundChange])"
    using commit_error_or_nil [OF h2, of exampleEnv] p s a b by blast
  show ?thesis using h1 n b 1 2 by simp
qed

section \<open>The PRE-PREPARE of a round change\<close>

text \<open>
  C1. A round change to round \<open>r\<close> (the last proposal is the one before the current
  sequence and \<open>r\<close> is above the current round) for which the round change set yields a
  certificate, on a node that is the proposer of round \<open>r\<close> and has a request available
  (a pending request or a ROUND-CHANGE message with a prepared certificate):
  \<^verbatim>\<open>startNewRound\<close> calls \<^verbatim>\<open>sendPreprepare\<close> once, with that certificate and with
  a request whose proposal is the one of an embedded prepared certificate of the highest
  round among the certificate's messages; when no message embeds a prepared certificate
  the request is the pending request. The sequence fits an \<^verbatim>\<open>int64\<close> and the
  embedded certificates have rounds that are not negative.
\<close>

theorem startNewRound_preprepare:
  assumes "current c = Some cur" and "valSet c = Some vs" and "roundChangeSet c = Some rcs"
    and "backend_LastProposal e = (lastProposal, lastProposer)"
    and "0 \<le> sequence cur" and "sequence cur < 2 ^ 63"
    and "Number lastProposal = sequence cur - 1" and "round cur < r"
    and "getCertificate e rcs r (MinQuorumSize e vs) = Inr cert"
    and proposer: "IsProposer e (CalcProposer e vs lastProposer (Uint64 r)) (backend_Address e)"
    and available: "pendingRequest cur \<noteq> None
                    \<or> (\<exists>m\<in>set (RoundChangeMessages cert). embeddedCertificate e m \<noteq> None)"
    and rounds: "\<forall>m\<in>set (RoundChangeMessages cert). \<forall>v p.
                   embeddedCertificate e m = Some (v, p) \<longrightarrow> 0 \<le> Round v"
  shows "\<exists>c' rq. startNewRound e c r =
                   Inr (c', [ProcessPendingRequests, ProcessBacklog, SendPreprepare rq cert,
                             Log LvlDebug ''New round''])
           \<and> (if \<exists>m\<in>set (RoundChangeMessages cert). embeddedCertificate e m \<noteq> None
               then \<exists>m\<in>set (RoundChangeMessages cert). \<exists>v p.
                      embeddedCertificate e m = Some (v, p) \<and> rq = \<lparr>Proposal = p\<rparr>
                      \<and> (\<forall>m'\<in>set (RoundChangeMessages cert). \<forall>v' p'.
                            embeddedCertificate e m' = Some (v', p') \<longrightarrow> Round v' \<le> Round v)
               else pendingRequest cur = Some rq)"
proof -
  let ?ms = "RoundChangeMessages cert"
  let ?req = "searchRequest e ?ms (- 1) (pendingRequest cur)"
  note run = startNewRound_roundChange [OF assms(1-9)]
  show ?thesis
  proof (cases "\<exists>m\<in>set ?ms. embeddedCertificate e m \<noteq> None")
    case True
    then obtain m v p where "m \<in> set ?ms" "embeddedCertificate e m = Some (v, p)"
      by auto
    moreover from this rounds have "- 1 < Round v" by fastforce
    ultimately have "\<exists>m\<in>set ?ms. \<exists>v p. embeddedCertificate e m = Some (v, p) \<and> - 1 < Round v"
      by blast
    from searchRequest_some [OF this, of "pendingRequest cur"]
    obtain m' w q where m: "m' \<in> set ?ms" "embeddedCertificate e m' = Some (w, q)"
      "?req = Some \<lparr>Proposal = q\<rparr>"
      "\<forall>m''\<in>set ?ms. \<forall>v' p'. embeddedCertificate e m'' = Some (v', p') \<longrightarrow> Round v' \<le> Round w"
      by blast
    have "startNewRound e c r =
            Inr (newRoundChangeTimerForView
            (c\<lparr>roundChangeSet := Some (newRoundChangeSet vs),
               current := Some (newRoundState \<lparr>Sequence = sequence cur, Round = r\<rparr> vs None
                                  (pendingRequest cur) (preparedCertificate cur)),
               valSet := Some (CalcProposer e vs lastProposer (Uint64 r)),
               state := StateAcceptRequest\<rparr>) \<lparr>Sequence = sequence cur, Round = r\<rparr>,
            [ProcessPendingRequests, ProcessBacklog, SendPreprepare \<lparr>Proposal = q\<rparr> cert,
                  Log LvlDebug ''New round''])"
      by (simp add: run m(3) proposer)
    moreover from True m
    have "(if \<exists>m\<in>set ?ms. embeddedCertificate e m \<noteq> None
               then \<exists>m\<in>set ?ms. \<exists>v p.
                      embeddedCertificate e m = Some (v, p) \<and> \<lparr>Proposal = q\<rparr> = \<lparr>Proposal = p\<rparr>
                      \<and> (\<forall>m'\<in>set ?ms. \<forall>v' p'.
                            embeddedCertificate e m' = Some (v', p') \<longrightarrow> Round v' \<le> Round v)
               else pendingRequest cur = Some \<lparr>Proposal = q\<rparr>)"
      by (simp only: if_True) blast
    ultimately show ?thesis by blast
  next
    case False
    then have "\<forall>m\<in>set ?ms. \<forall>v p. embeddedCertificate e m = Some (v, p) \<longrightarrow> Round v \<le> - 1"
      by auto
    then have s: "?req = pendingRequest cur"
      by (rule searchRequest_none)
    from False available obtain rq where rq: "pendingRequest cur = Some rq"
      by auto
    from s rq have s': "?req = Some rq" by simp
    have "startNewRound e c r =
            Inr (newRoundChangeTimerForView
            (c\<lparr>roundChangeSet := Some (newRoundChangeSet vs),
               current := Some (newRoundState \<lparr>Sequence = sequence cur, Round = r\<rparr> vs None
                                  (pendingRequest cur) (preparedCertificate cur)),
               valSet := Some (CalcProposer e vs lastProposer (Uint64 r)),
               state := StateAcceptRequest\<rparr>) \<lparr>Sequence = sequence cur, Round = r\<rparr>,
            [ProcessPendingRequests, ProcessBacklog, SendPreprepare rq cert,
                  Log LvlDebug ''New round''])"
      by (simp add: run s' proposer)
    moreover from False rq
    have "(if \<exists>m\<in>set ?ms. embeddedCertificate e m \<noteq> None
               then \<exists>m\<in>set ?ms. \<exists>v p.
                      embeddedCertificate e m = Some (v, p) \<and> rq = \<lparr>Proposal = p\<rparr>
                      \<and> (\<forall>m'\<in>set ?ms. \<forall>v' p'.
                            embeddedCertificate e m' = Some (v', p') \<longrightarrow> Round v' \<le> Round v)
               else pendingRequest cur = Some rq)"
      by (simp only: if_False)
    ultimately show ?thesis by blast
  qed
qed

theorem startNewRound_preprepare_witness:
  "getCertificate exampleEnv exampleRoundChangeSet 1 (MinQuorumSize exampleEnv exampleValSet) =
     Inr \<lparr>RoundChangeMessages =
            [exampleRoundChange 1 [1], exampleRoundChange 3 [1, 0], exampleRoundChange 4 [1]]\<rparr>
   \<and> map (embeddedCertificate exampleEnv)
        [exampleRoundChange 1 [1], exampleRoundChange 3 [1, 0], exampleRoundChange 4 [1]]
       = [None, Some (\<lparr>Sequence = 1, Round = 0\<rparr>, preparedProposal), None]
   \<and> (\<exists>c'. startNewRound exampleEnv exampleCore 1 =
         Inr (c', [ProcessPendingRequests, ProcessBacklog,
                   SendPreprepare \<lparr>Proposal = preparedProposal\<rparr>
                     \<lparr>RoundChangeMessages =
                        [exampleRoundChange 1 [1], exampleRoundChange 3 [1, 0],
                         exampleRoundChange 4 [1]]\<rparr>,
                   Log LvlDebug ''New round'']))"
proof -
  let ?cert = "\<lparr>RoundChangeMessages =
            [exampleRoundChange 1 [1], exampleRoundChange 3 [1, 0], exampleRoundChange 4 [1]]\<rparr>"
  have av: "pendingRequest exampleRoundState \<noteq> None
            \<or> (\<exists>m\<in>set (RoundChangeMessages ?cert). embeddedCertificate exampleEnv m \<noteq> None)"
    by (simp add: example_fields)
  have rs: "\<forall>m\<in>set (RoundChangeMessages ?cert). \<forall>v p.
              embeddedCertificate exampleEnv m = Some (v, p) \<longrightarrow> 0 \<le> Round v"
    by (auto simp: example_embedded)
  have "\<exists>c' rq. startNewRound exampleEnv exampleCore 1 =
                   Inr (c', [ProcessPendingRequests, ProcessBacklog, SendPreprepare rq ?cert,
                             Log LvlDebug ''New round''])
           \<and> (if \<exists>m\<in>set (RoundChangeMessages ?cert). embeddedCertificate exampleEnv m \<noteq> None
               then \<exists>m\<in>set (RoundChangeMessages ?cert). \<exists>v p.
                      embeddedCertificate exampleEnv m = Some (v, p) \<and> rq = \<lparr>Proposal = p\<rparr>
                      \<and> (\<forall>m'\<in>set (RoundChangeMessages ?cert). \<forall>v' p'.
                            embeddedCertificate exampleEnv m' = Some (v', p')
                            \<longrightarrow> Round v' \<le> Round v)
               else pendingRequest exampleRoundState = Some rq)"
    by (rule startNewRound_preprepare [OF example_fields(1,2,3,4) _ _ _ _ example_certificate(1)
          example_proposer av rs])
       (simp_all add: example_fields)
  then obtain c' rq where
    run: "startNewRound exampleEnv exampleCore 1 =
            Inr (c', [ProcessPendingRequests, ProcessBacklog, SendPreprepare rq ?cert,
                      Log LvlDebug ''New round''])"
    and rq: "rq = \<lparr>Proposal = preparedProposal\<rparr>"
    by (auto simp: example_embedded)
  show ?thesis
    using run rq by (simp add: example_certificate example_embedded)
qed

section \<open>The three ways of starting a round\<close>

text \<open>
  C2, amended. \<^verbatim>\<open>startNewRound(r)\<close> on a core with a round state, a validator set and a
  round change set, whose sequence fits an \<^verbatim>\<open>int64\<close>. When the last proposal's number
  is at least the current sequence, the sequence advances: the new view is (last
  proposal's number + 1, 0), the validator set comes from the backend, the round change
  set is a new one and the round state is fresh. When the last proposal's number is the
  current sequence minus one and \<open>r\<close> is above the current round, then a round change in
  the same sequence takes place if the round change set yields a certificate for \<open>r\<close>,
  and it carries the pending request and the prepared certificate forward; without a
  certificate the call logs an error and returns with the core unchanged. In every other
  case the call logs one line and returns with the core unchanged.
\<close>

theorem startNewRound_cases:
  assumes "current c = Some cur" and "valSet c = Some vs" and "roundChangeSet c = Some rcs"
    and "backend_LastProposal e = (lastProposal, lastProposer)"
    and "0 \<le> sequence cur" and "sequence cur < 2 ^ 63"
  shows "(sequence cur \<le> Number lastProposal \<longrightarrow>
           (\<exists>c' acts. startNewRound e c r = Inr (c', acts)
              \<and> current c' = Some (newRoundState \<lparr>Sequence = Number lastProposal + 1, Round = 0\<rparr>
                                     (backend_Validators e lastProposal) None None
                                     (EmptyPreparedCertificate e))
              \<and> valSet c' = Some (CalcProposer e (backend_Validators e lastProposal) lastProposer 0)
              \<and> roundChangeSet c' = Some (newRoundChangeSet (backend_Validators e lastProposal))
              \<and> state c' = StateAcceptRequest))
       \<and> (Number lastProposal = sequence cur - 1 \<and> round cur < r \<longrightarrow>
            (\<forall>cert. getCertificate e rcs r (MinQuorumSize e vs) = Inr cert \<longrightarrow>
               (\<exists>c' acts. startNewRound e c r = Inr (c', acts)
                  \<and> current c' = Some (newRoundState \<lparr>Sequence = sequence cur, Round = r\<rparr> vs None
                                         (pendingRequest cur) (preparedCertificate cur))
                  \<and> valSet c' = Some (CalcProposer e vs lastProposer (Uint64 r))
                  \<and> roundChangeSet c' = Some (newRoundChangeSet vs)
                  \<and> state c' = StateAcceptRequest))
            \<and> (\<forall>err. getCertificate e rcs r (MinQuorumSize e vs) = Inl err \<longrightarrow>
                  startNewRound e c r =
                    Inr (c, [Log LvlError ''Unable to produce round change certificate''])))
       \<and> (Number lastProposal < sequence cur
            \<and> \<not> (Number lastProposal = sequence cur - 1 \<and> round cur < r) \<longrightarrow>
            (\<exists>l s. startNewRound e c r = Inr (c, [Log l s])))"
proof (intro conjI impI allI)
  assume "sequence cur \<le> Number lastProposal"
  with assms(1,4) show "\<exists>c' acts. startNewRound e c r = Inr (c', acts)
              \<and> current c' = Some (newRoundState \<lparr>Sequence = Number lastProposal + 1, Round = 0\<rparr>
                                     (backend_Validators e lastProposal) None None
                                     (EmptyPreparedCertificate e))
              \<and> valSet c' = Some (CalcProposer e (backend_Validators e lastProposal) lastProposer 0)
              \<and> roundChangeSet c' = Some (newRoundChangeSet (backend_Validators e lastProposal))
              \<and> state c' = StateAcceptRequest"
    by (rule startNewRound_advance)
next
  fix cert
  assume a: "Number lastProposal = sequence cur - 1 \<and> round cur < r"
    and g: "getCertificate e rcs r (MinQuorumSize e vs) = Inr cert"
  from a have a1: "Number lastProposal = sequence cur - 1" and a2: "round cur < r" by simp_all
  show "\<exists>c' acts. startNewRound e c r = Inr (c', acts)
                  \<and> current c' = Some (newRoundState \<lparr>Sequence = sequence cur, Round = r\<rparr> vs None
                                         (pendingRequest cur) (preparedCertificate cur))
                  \<and> valSet c' = Some (CalcProposer e vs lastProposer (Uint64 r))
                  \<and> roundChangeSet c' = Some (newRoundChangeSet vs)
                  \<and> state c' = StateAcceptRequest"
    by (simp add: startNewRound_roundChange [OF assms a1 a2 g] newRoundChangeTimerForView_fields)
next
  fix err
  assume a: "Number lastProposal = sequence cur - 1 \<and> round cur < r"
    and g: "getCertificate e rcs r (MinQuorumSize e vs) = Inl err"
  from a have a1: "Number lastProposal = sequence cur - 1" and a2: "round cur < r" by simp_all
  show "startNewRound e c r = Inr (c, [Log LvlError ''Unable to produce round change certificate''])"
    by (rule startNewRound_noCertificate [OF assms a1 a2 g])
next
  assume a: "Number lastProposal < sequence cur
            \<and> \<not> (Number lastProposal = sequence cur - 1 \<and> round cur < r)"
  then have a1: "Number lastProposal < sequence cur"
    and a2: "\<not> (Number lastProposal = sequence cur - 1 \<and> round cur < r)" by blast+
  show "\<exists>l s. startNewRound e c r = Inr (c, [Log l s])"
    by (rule startNewRound_stale [OF assms(1,4,5,6) a1 a2])
qed

theorem startNewRound_cases_witness:
  "(\<exists>c' acts. startNewRound aheadEnv exampleCore 0 = Inr (c', acts)
       \<and> current c' = Some (newRoundState \<lparr>Sequence = 3, Round = 0\<rparr> exampleValSet None None
                              emptyCertificate)
       \<and> state c' = StateAcceptRequest)
   \<and> (\<exists>c' acts. startNewRound exampleEnv exampleCore 1 = Inr (c', acts)
       \<and> current c' = Some (newRoundState \<lparr>Sequence = 1, Round = 1\<rparr> exampleValSet None
                              (Some \<lparr>Proposal = exampleProposal\<rparr>) emptyCertificate)
       \<and> valSet c' = Some (exampleValSet\<lparr>proposer := 2\<rparr>)
       \<and> state c' = StateAcceptRequest)
   \<and> startNewRound exampleEnv exampleCore 2 =
       Inr (exampleCore, [Log LvlError ''Unable to produce round change certificate''])
   \<and> (\<exists>l s. startNewRound exampleEnv exampleCore 0 = Inr (exampleCore, [Log l s]))"
proof -
  have r: "(0::int) \<le> sequence exampleRoundState" "sequence exampleRoundState < 2 ^ 63"
    by (simp_all add: example_fields)
  note t1 = startNewRound_cases [OF example_fields(1,2,3,5) r, of 0]
  note t2 = startNewRound_cases [OF example_fields(1,2,3,4) r]
  have p: "CalcProposer exampleEnv exampleValSet 1 (Uint64 1) = exampleValSet\<lparr>proposer := 2\<rparr>"
    by (simp add: exampleEnv_def Uint64_def)
  have e: "backend_Validators aheadEnv \<lparr>Number = 2, Hash = 12\<rparr> = exampleValSet"
    "EmptyPreparedCertificate aheadEnv = emptyCertificate"
    by (simp_all add: aheadEnv_def exampleEnv_def)
  have 1: "\<exists>c' acts. startNewRound aheadEnv exampleCore 0 = Inr (c', acts)
       \<and> current c' = Some (newRoundState \<lparr>Sequence = 3, Round = 0\<rparr> exampleValSet None None
                              emptyCertificate)
       \<and> state c' = StateAcceptRequest"
    using t1 by (simp add: example_fields e) blast
  have 2: "\<exists>c' acts. startNewRound exampleEnv exampleCore 1 = Inr (c', acts)
       \<and> current c' = Some (newRoundState \<lparr>Sequence = 1, Round = 1\<rparr> exampleValSet None
                              (Some \<lparr>Proposal = exampleProposal\<rparr>) emptyCertificate)
       \<and> valSet c' = Some (exampleValSet\<lparr>proposer := 2\<rparr>)
       \<and> state c' = StateAcceptRequest"
    using t2 [of 1] by (simp add: example_fields example_certificate p) blast
  have 3: "startNewRound exampleEnv exampleCore 2 =
       Inr (exampleCore, [Log LvlError ''Unable to produce round change certificate''])"
    using t2 [of 2] by (simp add: example_fields example_certificate)
  have 4: "\<exists>l s. startNewRound exampleEnv exampleCore 0 = Inr (exampleCore, [Log l s])"
    using t2 [of 0] by (simp add: example_fields)
  show ?thesis using 1 2 3 4 by blast
qed

theorem startNewRound_cases_counterexample:
  "Number (fst (backend_LastProposal aheadEnv)) = 2
   \<and> map_option sequence (current exampleCore) = Some 1
   \<and> map_option (\<lambda>s. (sequence s, round s))
       (case startNewRound aheadEnv exampleCore 0 of
          Inl p \<Rightarrow> None
        | Inr (c', acts) \<Rightarrow> current c') = Some (3, 0)
   \<and> Number (fst (backend_LastProposal exampleEnv)) = 0
   \<and> map_option round (current exampleCore) = Some 0
   \<and> startNewRound exampleEnv exampleCore 2 =
       Inr (exampleCore, [Log LvlError ''Unable to produce round change certificate''])"
proof -
  have r: "(0::int) \<le> sequence exampleRoundState" "sequence exampleRoundState < 2 ^ 63"
    by (simp_all add: example_fields)
  from startNewRound_advance [OF example_fields(1,5), of 0]
  have 1: "map_option (\<lambda>s. (sequence s, round s))
       (case startNewRound aheadEnv exampleCore 0 of
          Inl p \<Rightarrow> None
        | Inr (c', acts) \<Rightarrow> current c') = Some (3, 0)"
    by (auto simp: example_fields newRoundState_def)
  have 2: "startNewRound exampleEnv exampleCore 2 =
       Inr (exampleCore, [Log LvlError ''Unable to produce round change certificate''])"
    by (rule startNewRound_noCertificate [OF example_fields(1,2,3,4) r _ _ example_certificate(2)])
       (simp_all add: example_fields)
  show ?thesis using 1 2 by (simp add: example_fields)
qed

text \<open>
  C4. \<^verbatim>\<open>verifyPreparedCertificate\<close> on a core with a round state and a validator set
  returns, and returns nil exactly for the certificates that are valid in the words of
  section 4.3. An error it returns names a condition the certificate violates; when the
  certificate violates the condition of one error only, that error is returned (so a
  repeated sender gives \<open>errInvalidPreparedCertificateDuplicate\<close>, a sequence after the
  current one \<open>errInvalidPreparedCertificateMsgView\<close>, a code other than PREPARE and
  COMMIT \<open>errInvalidPreparedCertificateMsgCode\<close>, a digest other than the hash of the
  certificate's proposal \<open>errInvalidPreparedCertificateDigestMismatch\<close>). A certificate
  with another number of messages than \<open>minQuorumSize\<close>, the empty one among them, gives
  \<open>errInvalidPreparedCertificateNumMsgs\<close>. The error of a certificate of the right size is
  that of its first message that fails its check: the messages before it are valid, of one
  view and of distinct senders, and the error is the result of checking that message
  against their senders and their view.
\<close>

theorem verifyPreparedCertificate_spec:
  assumes "current c = Some cur" and "valSet c = Some vs"
  shows "(verifyPreparedCertificate e c cert = Inr None) = validPreparedCertificate e vs cur cert
       \<and> (\<exists>r. verifyPreparedCertificate e c cert = Inr r)
       \<and> (\<forall>err. verifyPreparedCertificate e c cert = Inr (Some err)
              \<longrightarrow> violates e vs cur cert err)
       \<and> (\<forall>err. \<not> validPreparedCertificate e vs cur cert
                 \<and> (\<forall>err'. violates e vs cur cert err' \<longrightarrow> err' = err)
              \<longrightarrow> verifyPreparedCertificate e c cert = Inr (Some err))
       \<and> (int (length (PrepareOrCommitMessages cert)) \<noteq> MinQuorumSize e vs
            \<longrightarrow> verifyPreparedCertificate e c cert
                  = Inr (Some errInvalidPreparedCertificateNumMsgs))
       \<and> (\<forall>err. verifyPreparedCertificate e c cert = Inr (Some err)
                 \<and> int (length (PrepareOrCommitMessages cert)) = MinQuorumSize e vs
              \<longrightarrow> (\<exists>pre m rest. PrepareOrCommitMessages cert = pre @ m # rest
                     \<and> (\<forall>x\<in>set pre.
                           validCertificateMessage e (sequence cur) (Hash (pcProposal cert)) x)
                     \<and> sameViews e pre \<and> distinct (map Address pre)
                     \<and> checkCertificateMessage e (sequence cur) (Hash (pcProposal cert))
                          (rev (map Address pre))
                          (if pre = [] then None
                           else map_option View (DecodeSubject e (last pre))) m
                        = Inl err))"
proof (intro conjI allI impI)
  show "(verifyPreparedCertificate e c cert = Inr None) = validPreparedCertificate e vs cur cert"
    using assms by (rule verifyPreparedCertificate_accepts)
  show r: "\<exists>r. verifyPreparedCertificate e c cert = Inr r"
    unfolding verifyPreparedCertificate_run [OF assms] by simp
  show "violates e vs cur cert err"
    if "verifyPreparedCertificate e c cert = Inr (Some err)" for err
    using assms that by (rule verifyPreparedCertificate_error)
  show "verifyPreparedCertificate e c cert = Inr (Some err)"
    if h: "\<not> validPreparedCertificate e vs cur cert
           \<and> (\<forall>err'. violates e vs cur cert err' \<longrightarrow> err' = err)" for err
  proof -
    from r obtain res where res: "verifyPreparedCertificate e c cert = Inr res" ..
    with h have "res \<noteq> None"
      using verifyPreparedCertificate_accepts [OF assms, of e cert] by auto
    then obtain err' where e': "res = Some err'" by auto
    with res have "violates e vs cur cert err'"
      using verifyPreparedCertificate_error [OF assms] by simp
    with h have "err' = err" by simp
    with res e' show ?thesis by simp
  qed
  show "verifyPreparedCertificate e c cert = Inr (Some errInvalidPreparedCertificateNumMsgs)"
    if "int (length (PrepareOrCommitMessages cert)) \<noteq> MinQuorumSize e vs"
    using that unfolding verifyPreparedCertificate_run [OF assms] by simp  show "\<exists>pre m rest. PrepareOrCommitMessages cert = pre @ m # rest
       \<and> (\<forall>x\<in>set pre. validCertificateMessage e (sequence cur) (Hash (pcProposal cert)) x)
       \<and> sameViews e pre \<and> distinct (map Address pre)
       \<and> checkCertificateMessage e (sequence cur) (Hash (pcProposal cert))
            (rev (map Address pre))
            (if pre = [] then None else map_option View (DecodeSubject e (last pre))) m
          = Inl err"
    if "verifyPreparedCertificate e c cert = Inr (Some err)
        \<and> int (length (PrepareOrCommitMessages cert)) = MinQuorumSize e vs" for err
    using that verifyPreparedCertificate_first [OF assms, of e cert err] by blast
qed

theorem verifyPreparedCertificate_spec_witness:
  "current exampleCore = Some exampleRoundState \<and> valSet exampleCore = Some exampleValSet
   \<and> validPreparedCertificate exampleEnv exampleValSet exampleRoundState (testCertificate 1)
   \<and> verifyPreparedCertificate exampleEnv exampleCore (testCertificate 1) = Inr None
   \<and> verifyPreparedCertificate exampleEnv exampleCore emptyCertificate
       = Inr (Some errInvalidPreparedCertificateNumMsgs)
   \<and> violates exampleEnv exampleValSet exampleRoundState (testCertificate 10)
        errInvalidPreparedCertificateMsgView"
proof -
  have h: "current exampleCore = Some exampleRoundState" "valSet exampleCore = Some exampleValSet"
    by (simp_all add: exampleCore_def)
  note t = verifyPreparedCertificate_spec [OF h, of exampleEnv]
  have v: "validPreparedCertificate exampleEnv exampleValSet exampleRoundState (testCertificate 1)"
    by code_simp
  have n: "int (length (PrepareOrCommitMessages emptyCertificate))
           \<noteq> MinQuorumSize exampleEnv exampleValSet"
    by (simp add: emptyCertificate_def exampleEnv_def)
  have 1: "verifyPreparedCertificate exampleEnv exampleCore (testCertificate 1) = Inr None"
    using t [of "testCertificate 1"] v by simp
  have 2: "verifyPreparedCertificate exampleEnv exampleCore emptyCertificate
       = Inr (Some errInvalidPreparedCertificateNumMsgs)"
    using t [of emptyCertificate] n by simp
  have 3: "violates exampleEnv exampleValSet exampleRoundState (testCertificate 10)
        errInvalidPreparedCertificateMsgView"
    using t [of "testCertificate 10"] verifyPreparedCertificate_tests(3) by simp
  show ?thesis using h v 1 2 3 by simp
qed

section \<open>Verifying a PREPARE\<close>

lemma Subject_of_differs:
  "(Subject_of cur \<noteq> Some prepare) =
     (vSequence (View prepare) \<noteq> Some (sequence cur) \<or> vRound (View prepare) \<noteq> Some (round cur)
      \<or> (case Proposal_of cur of None \<Rightarrow> True | Some p \<Rightarrow> Digest prepare \<noteq> Hash p))"
proof (cases "Proposal_of cur")
  case None
  then show ?thesis by (simp add: Subject_of_def)
next
  case (Some p)
  obtain v d where pr: "prepare = \<lparr>View = v, Digest = d\<rparr>" by (cases prepare) auto
  obtain s r where v: "v = \<lparr>vSequence = s, vRound = r\<rparr>" by (cases v) auto
  show ?thesis using Some by (auto simp: Subject_of_def pr v)
qed

text \<open>
  The six cases of \<^verbatim>\<open>TestVerifyPrepare\<close>: the round state of the view and the subject
  of each, with the test proposal's hash 11.
\<close>

lemma verifyPrepare_tests:
  "map (\<lambda>(sq, r, s).
          verifyPrepare
            ((newRoundState \<lparr>Sequence = sq, Round = r\<rparr> exampleValSet None None emptyCertificate)
               \<lparr>preprepare := Some \<lparr>ppView = \<lparr>Sequence = sq, Round = r\<rparr>,
                                     ppProposal = exampleProposal,
                                     ppRoundChangeCertificate = \<lparr>RoundChangeMessages = []\<rparr>\<rparr>\<rparr>)
            s)
     [(0, 0, \<lparr>View = \<lparr>vSequence = Some 0, vRound = Some 0\<rparr>, Digest = 11\<rparr>),
      (1, 1, \<lparr>View = \<lparr>vSequence = Some 0, vRound = Some 0\<rparr>, Digest = 11\<rparr>),
      (1, 1, \<lparr>View = \<lparr>vSequence = Some 0, vRound = Some 0\<rparr>, Digest = 1234567890\<rparr>),
      (1, 1, \<lparr>View = \<lparr>vSequence = None, vRound = Some 0\<rparr>, Digest = 11\<rparr>),
      (0, 0, \<lparr>View = \<lparr>vSequence = Some 0, vRound = Some 1\<rparr>, Digest = 11\<rparr>),
      (0, 0, \<lparr>View = \<lparr>vSequence = Some 1, vRound = Some 0\<rparr>, Digest = 11\<rparr>)]
   = [None, Some errInconsistentSubject, Some errInconsistentSubject,
      Some errInconsistentSubject, Some errInconsistentSubject, Some errInconsistentSubject]"
  by (simp add: verifyPrepare_def Subject_of_def Proposal_of_def newRoundState_def
      exampleProposal_def)

text \<open>
  C6. For a PREPARE that decodes to a subject, \<^verbatim>\<open>verifyPrepare\<close> returns
  \<open>errInconsistentSubject\<close> exactly when the subject differs from the current one: its
  sequence is missing or is not the current sequence, its round is missing or is not the
  current round, or its digest is not the hash of the accepted proposal (or no proposal has
  been accepted); otherwise it returns nil. When it returns the error,
  \<^verbatim>\<open>handlePrepare\<close> returns an error and no new core: the message is not inserted into
  \<open>Prepares\<close>, the state is kept and nothing is sent. The error of \<^verbatim>\<open>handlePrepare\<close> is
  \<open>errInconsistentSubject\<close> unless the comparison of the views, which comes first, has
  already named the view old, future or incomplete.
\<close>

theorem verifyPrepare_inconsistent:
  assumes "current c = Some cur" and "valSet c = Some vs"
    and "DecodeSubject e msg = Some prepare"
  shows "(verifyPrepare cur prepare = Some errInconsistentSubject) =
           (vSequence (View prepare) \<noteq> Some (sequence cur)
            \<or> vRound (View prepare) \<noteq> Some (round cur)
            \<or> (case Proposal_of cur of None \<Rightarrow> True | Some p \<Rightarrow> Digest prepare \<noteq> Hash p))
       \<and> (verifyPrepare cur prepare = None
          \<or> verifyPrepare cur prepare = Some errInconsistentSubject)
       \<and> (verifyPrepare cur prepare = Some errInconsistentSubject \<longrightarrow>
            handlePrepare e c msg =
              Inr (Inl (case checkMessage cur (View prepare) of
                          None \<Rightarrow> errInconsistentSubject
                        | Some err \<Rightarrow> err)))"
proof -
  have a: "(verifyPrepare cur prepare = Some errInconsistentSubject)
           = (Subject_of cur \<noteq> Some prepare)"
    by (simp add: verifyPrepare_def)
  have b: "verifyPrepare cur prepare = None
           \<or> verifyPrepare cur prepare = Some errInconsistentSubject"
    by (simp add: verifyPrepare_def)
  have c: "handlePrepare e c msg =
             Inr (Inl (case checkMessage cur (View prepare) of
                         None \<Rightarrow> errInconsistentSubject
                       | Some err \<Rightarrow> err))"
    if "verifyPrepare cur prepare = Some errInconsistentSubject"
    using assms that by (simp add: handlePrepare_def split: option.splits)
  from a b c show ?thesis
    unfolding Subject_of_differs by blast
qed

theorem verifyPrepare_inconsistent_witness:
  "(\<exists>cur. current testProposerCore = Some cur
      \<and> round cur = 0 \<and> sequence cur = 1 \<and> Proposal_of cur = Some exampleProposal
      \<and> Hash exampleProposal = 11
      \<and> verifyPrepare cur \<lparr>View = \<lparr>vSequence = Some 1, vRound = Some 0\<rparr>, Digest = 11\<rparr> = None
      \<and> verifyPrepare cur \<lparr>View = \<lparr>vSequence = Some 1, vRound = Some 0\<rparr>, Digest = 12\<rparr>
          = Some errInconsistentSubject
      \<and> verifyPrepare cur \<lparr>View = \<lparr>vSequence = Some 1, vRound = Some 1\<rparr>, Digest = 11\<rparr>
          = Some errInconsistentSubject
      \<and> verifyPrepare cur \<lparr>View = \<lparr>vSequence = Some 0, vRound = Some 0\<rparr>, Digest = 11\<rparr>
          = Some errInconsistentSubject)
   \<and> handlePrepare exampleEnv testProposerCore (examplePrepare 1 1 0 12)
       = Inr (Inl errInconsistentSubject)
   \<and> handlePrepare exampleEnv testProposerCore (examplePrepare 1 1 1 11)
       = Inr (Inl errFutureMessage)
   \<and> handlePrepare exampleEnv testProposerCore (examplePrepare 1 0 0 11)
       = Inr (Inl errOldMessage)"
proof -
  let ?cur = "exampleRoundState
          \<lparr>preprepare := Some \<lparr>ppView = \<lparr>Sequence = 1, Round = 0\<rparr>,
                                ppProposal = exampleProposal,
                                ppRoundChangeCertificate = \<lparr>RoundChangeMessages = []\<rparr>\<rparr>\<rparr>"
  have h1: "current testProposerCore = Some ?cur"
    and h2: "valSet testProposerCore = Some exampleValSet"
    by (simp_all add: testProposerCore_def exampleCore_def)
  have d: "DecodeSubject exampleEnv (examplePrepare a sq r h) =
             Some \<lparr>View = \<lparr>vSequence = Some (uint sq), vRound = Some (uint r)\<rparr>,
                   Digest = ucast h\<rparr>" for a sq r h
    by (simp add: exampleEnv_def exampleDecodeSubject_def examplePrepare_def)
  have f: "round ?cur = 0" "sequence ?cur = 1" "Proposal_of ?cur = Some exampleProposal"
    "Hash exampleProposal = 11"
    by (simp_all add: exampleRoundState_def Proposal_of_def exampleProposal_def)
  note t = verifyPrepare_inconsistent [OF h1 h2 d]
  from t [of 1 0 11 1] t [of 1 0 12 1] t [of 1 1 11 1] t [of 0 0 11 1]
  show ?thesis
    by (auto simp: h1 f checkMessage_def)
qed

end
